theory Spec2Isabelle
  imports Complex_Main "HOL-Library.Sublist"
begin

text \<open>
  A model of the attendance check-in core of the College Attendance System: the
  geofence distance of the student dashboard, its camera and verification handlers,
  the "verified today" indicator, the admin bulk update of attendance, and the
  server-side ledger contract. JavaScript numbers are modelled as reals whose
  arithmetic rounds as a given machine does (coordinates, distances), as integers
  (time values in milliseconds) or as naturals (identifiers, counters); \<open>null\<close>
  and \<open>undefined\<close> are \<open>None\<close>.
  All definitions come first, the properties follow.
\<close>

section \<open>Definitions\<close>

subsection \<open>Attendance Ledger (server-side contract)\<close>

text \<open>
  The ledger lives in the Django backend, which is not among the front-end sources.
  Its data model and its one operation are taken from sections 3 and 4.5 of the
  specification.
\<close>

datatype AttendanceStatus = Present | Absent | Late

record AttendanceRecord =
  studentId :: string
  date :: string
  status :: AttendanceStatus
  recordedAt :: nat

type_synonym ledger = "AttendanceRecord list"

definition is_for :: "string \<Rightarrow> string \<Rightarrow> AttendanceRecord \<Rightarrow> bool" where
  "is_for sid d r = (studentId r = sid \<and> date r = d)"

text \<open>
  Modelled from the spec: \<open>recordVerifiedCheckIn(studentId, date)\<close> of the
  Attendance Ledger, whose implementation is server code absent from the sources.
  It is an idempotent upsert keyed on (studentId, date): an existing record is
  returned unchanged, otherwise a record with status Present, stamped with the
  current time \<open>now\<close>, is persisted and returned. There is no error branch.
\<close>

definition recordVerifiedCheckIn ::
  "ledger \<Rightarrow> string \<Rightarrow> string \<Rightarrow> nat \<Rightarrow> AttendanceRecord \<times> ledger" where
  "recordVerifiedCheckIn L sid d now =
     (case find (is_for sid d) L of
        Some r \<Rightarrow> (r, L)
      | None \<Rightarrow>
          (let r = \<lparr>studentId = sid, date = d, status = Present, recordedAt = now\<rparr>
           in (r, L @ [r])))"

text \<open>
  N calls with the same arguments, one per clock reading in \<open>ts\<close>; the records
  returned are collected in call order.
\<close>

fun repeatCheckIn ::
  "ledger \<Rightarrow> string \<Rightarrow> string \<Rightarrow> nat list \<Rightarrow> AttendanceRecord list \<times> ledger" where
  "repeatCheckIn L sid d [] = ([], L)"
| "repeatCheckIn L sid d (t # ts) =
     (let (r, L') = recordVerifiedCheckIn L sid d t;
          (rs, L'') = repeatCheckIn L' sid d ts
      in (r # rs, L''))"

text \<open>The ledger invariant of section 3: at most one record per (studentId, date).\<close>

definition at_most_one :: "ledger \<Rightarrow> bool" where
  "at_most_one L = distinct (map (\<lambda>r. (studentId r, date r)) L)"

subsection \<open>Geofence distance (studentDashboard.tsx)\<close>

text \<open>
  JavaScript numbers are IEEE doubles: the result of every arithmetic operation is
  rounded, the functions of \<open>Math\<close> are approximations, and an undefined result is
  NaN. A number is modelled as a real, a possibly undefined result as an option
  (\<open>None\<close>: NaN). The rounding \<open>fl\<close> of the arithmetic operations and of the square
  root, the constant \<open>Math.PI\<close> and the functions \<open>Math.sin\<close>, \<open>Math.cos\<close> and
  \<open>Math.atan2\<close> belong to the machine and are the fields of a record. Arguments
  are numbers (not NaN); overflow to an infinity, which needs coordinates beyond
  10^300, is not modelled.
\<close>

record Machine =
  fl :: "real \<Rightarrow> real"
  Math_PI :: real
  Math_sin :: "real \<Rightarrow> real"
  Math_cos :: "real \<Rightarrow> real"
  Math_atan2 :: "real \<Rightarrow> real \<Rightarrow> real"

text \<open>\<open>Math.sqrt\<close>: NaN for a negative argument, otherwise the rounded square root.\<close>

definition Math_sqrt :: "Machine \<Rightarrow> real \<Rightarrow> real option" where
  "Math_sqrt M x = (if x < 0 then None else Some (fl M (sqrt x)))"

text \<open>
  The mathematical \<open>atan2(y, x)\<close>, the angle of the point (x, y), written out by
  quadrant, and the machine of exact arithmetic: no rounding, the mathematical
  constant and functions.
\<close>

definition atan2 :: "real \<Rightarrow> real \<Rightarrow> real" where
  "atan2 y x =
     (if 0 < x then arctan (y / x)
      else if x < 0 then (if 0 \<le> y then arctan (y / x) + pi else arctan (y / x) - pi)
      else if 0 < y then pi / 2
      else if y < 0 then - pi / 2
      else 0)"

definition exact :: Machine where
  "exact = \<lparr>fl = (\<lambda>x. x), Math_PI = pi, Math_sin = sin, Math_cos = cos, Math_atan2 = atan2\<rparr>"

text \<open>\<open>deg2rad\<close> and \<open>getDistanceFromLatLonInMeters\<close>, operation by operation.\<close>

definition deg2rad :: "Machine \<Rightarrow> real \<Rightarrow> real" where
  "deg2rad M deg = fl M (deg * fl M (Math_PI M / 180))"

definition getDistanceFromLatLonInMeters ::
  "Machine \<Rightarrow> real \<Rightarrow> real \<Rightarrow> real \<Rightarrow> real \<Rightarrow> real option" where
  "getDistanceFromLatLonInMeters M lat1 lon1 lat2 lon2 =
     (let R = 6371000;
          dLat = deg2rad M (fl M (lat2 - lat1));
          dLon = deg2rad M (fl M (lon2 - lon1));
          a = fl M
               (fl M (Math_sin M (fl M (dLat / 2)) * Math_sin M (fl M (dLat / 2))) +
                fl M (fl M (fl M (Math_cos M (deg2rad M lat1) * Math_cos M (deg2rad M lat2)) *
                            Math_sin M (fl M (dLon / 2))) *
                      Math_sin M (fl M (dLon / 2))))
      in case Math_sqrt M a of
           None \<Rightarrow> None
         | Some root_a \<Rightarrow>
             (case Math_sqrt M (fl M (1 - a)) of
                None \<Rightarrow> None
              | Some root_1a \<Rightarrow>
                  (let c = fl M (2 * Math_atan2 M root_a root_1a);
                       distance = fl M (R * c)
                   in Some distance)))"

text \<open>The value of the variable \<open>a\<close> of \<open>getDistanceFromLatLonInMeters\<close>.\<close>

definition haversine_a :: "Machine \<Rightarrow> real \<Rightarrow> real \<Rightarrow> real \<Rightarrow> real \<Rightarrow> real" where
  "haversine_a M lat1 lon1 lat2 lon2 =
     (let dLat = deg2rad M (fl M (lat2 - lat1));
          dLon = deg2rad M (fl M (lon2 - lon1))
      in fl M
           (fl M (Math_sin M (fl M (dLat / 2)) * Math_sin M (fl M (dLat / 2))) +
            fl M (fl M (fl M (Math_cos M (deg2rad M lat1) * Math_cos M (deg2rad M lat2)) *
                        Math_sin M (fl M (dLon / 2))) *
                  Math_sin M (fl M (dLon / 2)))))"

text \<open>
  The constants of the dashboard. Nothing in the dashboard calls
  \<open>getDistanceFromLatLonInMeters\<close>: its one caller, the geolocation effect with the
  comparison \<open>distance <= allowedRadius\<close> and \<open>setIsWithinCollegeRadius\<close>, is
  commented out, and so is the \<open>!isWithinCollegeRadius\<close> of the button's \<open>disabled\<close>
  condition. The state variable \<open>isWithinCollegeRadius\<close> is never written.
\<close>

definition collegeLatitude :: real where
  "collegeLatitude = 27.71477743675058"

definition collegeLongitude :: real where
  "collegeLongitude = 85.30895279815599"

definition allowedRadius :: real where
  "allowedRadius = 100"

text \<open>
  The haversine formula as the specification names it, for coordinates in degrees,
  with the Earth radius 6,371,000 m, written without the functions of the code:
  the reference the code is compared with.
\<close>

definition haversine :: "real \<Rightarrow> real \<Rightarrow> real \<Rightarrow> real \<Rightarrow> real" where
  "haversine lat1 lon1 lat2 lon2 =
     2 * 6371000 *
     arcsin (sqrt ((sin ((lat2 - lat1) * pi / 360))\<^sup>2 +
                   cos (lat1 * pi / 180) * cos (lat2 * pi / 180) *
                   (sin ((lon2 - lon1) * pi / 360))\<^sup>2))"

subsection \<open>Dates: \<open>new Date(...).toDateString()\<close>\<close>

text \<open>
  The dashboard compares two \<open>toDateString()\<close> results. A Date is its time value,
  milliseconds since the epoch as an integer, or \<open>None\<close> for an invalid date
  (time value NaN). The functions below are those of the ECMAScript specification
  (Day, WeekDay, YearFromTime, DayWithinYear, InLeapYear, MonthFromTime,
  DateFromTime, DateString, LocalTime, ToZeroPaddedDecimalString). The year is
  computed from the day number by counting whole 400-, 100-, 4- and 1-year cycles
  from 1 January 1601, which is 134774 days before the epoch.
\<close>

definition msPerDay :: int where
  "msPerDay = 86400000"

definition Day :: "int \<Rightarrow> int" where
  "Day t = t div msPerDay"

definition WeekDay :: "int \<Rightarrow> int" where
  "WeekDay t = (Day t + 4) mod 7"

definition cycleParts :: "int \<Rightarrow> int \<times> int \<times> int \<times> int \<times> int" where
  "cycleParts d =
     (let z = d + 134774;
          n400 = z div 146097;
          r400 = z mod 146097;
          n100 = min 3 (r400 div 36524);
          r100 = r400 - n100 * 36524;
          n4 = r100 div 1461;
          r4 = r100 mod 1461;
          n1 = min 3 (r4 div 365);
          doy = r4 - n1 * 365
      in (n400, n100, n4, n1, doy))"

definition YearFromTime :: "int \<Rightarrow> int" where
  "YearFromTime t =
     (case cycleParts (Day t) of (n400, n100, n4, n1, doy) \<Rightarrow>
        1601 + 400 * n400 + 100 * n100 + 4 * n4 + n1)"

definition DayWithinYear :: "int \<Rightarrow> int" where
  "DayWithinYear t = (case cycleParts (Day t) of (n400, n100, n4, n1, doy) \<Rightarrow> doy)"

definition DaysInYear :: "int \<Rightarrow> int" where
  "DaysInYear y =
     (if y mod 4 \<noteq> 0 then 365
      else if y mod 100 \<noteq> 0 then 366
      else if y mod 400 \<noteq> 0 then 365
      else 366)"

definition InLeapYear :: "int \<Rightarrow> int" where
  "InLeapYear t = (if DaysInYear (YearFromTime t) = 366 then 1 else 0)"

definition MonthFromTime :: "int \<Rightarrow> int" where
  "MonthFromTime t =
     (let d = DayWithinYear t; L = InLeapYear t
      in if d < 31 then 0
         else if d < 59 + L then 1
         else if d < 90 + L then 2
         else if d < 120 + L then 3
         else if d < 151 + L then 4
         else if d < 181 + L then 5
         else if d < 212 + L then 6
         else if d < 243 + L then 7
         else if d < 273 + L then 8
         else if d < 304 + L then 9
         else if d < 334 + L then 10
         else 11)"

definition DateFromTime :: "int \<Rightarrow> int" where
  "DateFromTime t =
     (let d = DayWithinYear t; L = InLeapYear t; m = MonthFromTime t
      in if m = 0 then d + 1
         else if m = 1 then d - 30
         else if m = 2 then d - 58 - L
         else if m = 3 then d - 89 - L
         else if m = 4 then d - 119 - L
         else if m = 5 then d - 150 - L
         else if m = 6 then d - 180 - L
         else if m = 7 then d - 211 - L
         else if m = 8 then d - 242 - L
         else if m = 9 then d - 272 - L
         else if m = 10 then d - 303 - L
         else d - 333 - L)"

definition digit :: "nat \<Rightarrow> char" where
  "digit n = ''0123456789'' ! n"

fun digits :: "nat \<Rightarrow> string" where
  "digits n = (if n < 10 then [digit n] else digits (n div 10) @ [digit (n mod 10)])"

definition ToZeroPaddedDecimalString :: "nat \<Rightarrow> nat \<Rightarrow> string" where
  "ToZeroPaddedDecimalString n minLength =
     replicate (minLength - length (digits n)) (CHR ''0'') @ digits n"

definition weekdayName :: "int \<Rightarrow> string" where
  "weekdayName d = [''Sun'', ''Mon'', ''Tue'', ''Wed'', ''Thu'', ''Fri'', ''Sat''] ! nat d"

definition monthName :: "int \<Rightarrow> string" where
  "monthName m = [''Jan'', ''Feb'', ''Mar'', ''Apr'', ''May'', ''Jun'',
                  ''Jul'', ''Aug'', ''Sep'', ''Oct'', ''Nov'', ''Dec''] ! nat m"

definition DateString :: "int \<Rightarrow> string" where
  "DateString tv =
     (let weekday = weekdayName (WeekDay tv);
          month = monthName (MonthFromTime tv);
          day = ToZeroPaddedDecimalString (nat (DateFromTime tv)) 2;
          yv = YearFromTime tv;
          yearSign = (if 0 \<le> yv then '''' else ''-'');
          paddedYear = ToZeroPaddedDecimalString (nat \<bar>yv\<bar>) 4
      in weekday @ '' '' @ month @ '' '' @ day @ '' '' @ yearSign @ paddedYear)"

text \<open>
  The local time zone adjustment \<open>LocalTZA\<close> (milliseconds to add to a UTC time
  value, possibly depending on it through daylight saving) belongs to the browser
  and is a parameter.
\<close>

definition LocalTime :: "(int \<Rightarrow> int) \<Rightarrow> int \<Rightarrow> int" where
  "LocalTime LocalTZA t = t + LocalTZA t"

definition toDateString :: "(int \<Rightarrow> int) \<Rightarrow> int option \<Rightarrow> string" where
  "toDateString LocalTZA d =
     (case d of None \<Rightarrow> ''Invalid Date'' | Some tv \<Rightarrow> DateString (LocalTime LocalTZA tv))"

text \<open>
  The day number of the first day of a year, as ECMAScript defines it: the
  specification's YearFromTime is the year \<open>y\<close> with
  \<open>DayFromYear y \<le> Day t < DayFromYear (y + 1)\<close>.
\<close>

definition DayFromYear :: "int \<Rightarrow> int" where
  "DayFromYear y = 365 * (y - 1970) + (y - 1969) div 4 - (y - 1901) div 100 + (y - 1601) div 400"

text \<open>Auxiliary functions used to read a rendered date back.\<close>

definition monthOffset :: "int \<Rightarrow> int \<Rightarrow> int" where
  "monthOffset m L =
     (if m = 0 then - 1 else if m = 1 then 30 else if m = 2 then 58 + L
      else if m = 3 then 89 + L else if m = 4 then 119 + L else if m = 5 then 150 + L
      else if m = 6 then 180 + L else if m = 7 then 211 + L else if m = 8 then 242 + L
      else if m = 9 then 272 + L else if m = 10 then 303 + L else 333 + L)"

definition digit_val :: "char \<Rightarrow> nat" where
  "digit_val c = length (takeWhile (\<lambda>x. x \<noteq> c) ''0123456789'')"

definition decimal_val :: "string \<Rightarrow> nat" where
  "decimal_val s = foldl (\<lambda>a c. 10 * a + digit_val c) 0 s"

definition yearString :: "int \<Rightarrow> string" where
  "yearString yv = (if 0 \<le> yv then [] else ''-'') @ ToZeroPaddedDecimalString (nat \<bar>yv\<bar>) 4"

subsection \<open>Admin attendance page: single and bulk status updates\<close>

text \<open>
  The \<open>Attendance\<close> interface of the admin API. Its fields \<open>id\<close>, \<open>student\<close>,
  \<open>status\<close> and \<open>date\<close> carry the prefix \<open>att_\<close> here, since \<open>id\<close> is a constant of
  HOL and \<open>status\<close> and \<open>date\<close> are fields of the ledger record; the student is
  represented by a name.
\<close>

record Attendance =
  att_id :: nat
  att_student :: string
  att_status :: AttendanceStatus
  att_date :: string

datatype AxiosError = HttpError nat | NetworkError

text \<open>
  The endpoint \<open>PUT /attendance/{id}/\<close> with body \<open>{status}\<close> is served by the
  backend, which is not in the sources: it is a parameter \<open>put\<close>, a function from the
  server state, the id and the status to the answer and the new server state. An
  answer is the updated record (\<open>Inr\<close>, the \<open>response.data\<close> of a 2xx answer) or the
  error with which axios rejects (\<open>Inl\<close>).
\<close>

type_synonym 'srv backend =
  "'srv \<Rightarrow> nat \<Rightarrow> AttendanceStatus \<Rightarrow> (AxiosError + Attendance) \<times> 'srv"

definition updateAttendanceStatus ::
  "'srv backend \<Rightarrow> nat \<Rightarrow> AttendanceStatus \<Rightarrow> 'srv \<Rightarrow> (AxiosError + Attendance) \<times> 'srv" where
  "updateAttendanceStatus put ident st srv = put srv ident st"

text \<open>
  \<open>ids.map((id) => updateAttendanceStatus(id, status))\<close> calls the function for each
  id, first to last; each call issues its request at once. The requests are taken
  to be served in the order in which they were issued.
\<close>

fun issue :: "('srv \<Rightarrow> 'r \<times> 'srv) list \<Rightarrow> 'srv \<Rightarrow> 'r list \<times> 'srv" where
  "issue [] srv = ([], srv)"
| "issue (call # calls) srv =
     (let (r, srv1) = call srv;
          (rs, srv2) = issue calls srv1
      in (r # rs, srv2))"

text \<open>
  \<open>Promise.all\<close>: the list of the values when every promise is fulfilled, otherwise
  a rejection (here: the first one in the list).
\<close>

fun Promise_all :: "('e + 'a) list \<Rightarrow> 'e + 'a list" where
  "Promise_all [] = Inr []"
| "Promise_all (Inl e # rs) = Inl e"
| "Promise_all (Inr v # rs) = (case Promise_all rs of Inl e \<Rightarrow> Inl e | Inr vs \<Rightarrow> Inr (v # vs))"

definition bulkUpdateAttendance ::
  "'srv backend \<Rightarrow> nat list \<Rightarrow> AttendanceStatus \<Rightarrow> 'srv \<Rightarrow> (AxiosError + Attendance list) \<times> 'srv" where
  "bulkUpdateAttendance put ids st srv =
     (let (updates, srv') = issue (map (\<lambda>ident. updateAttendanceStatus put ident st) ids) srv
      in (Promise_all updates, srv'))"

text \<open>
  \<open>handleBulkUpdate\<close> of the attendance page: the ids of the filtered records are
  updated in bulk; on success every local record is replaced by the updated record
  with its id, if there is one; on failure the error is logged and the local
  records stay as they are.
\<close>

definition handleBulkUpdate ::
  "'srv backend \<Rightarrow> Attendance list \<Rightarrow> AttendanceStatus \<Rightarrow> Attendance list \<times> 'srv \<Rightarrow>
     Attendance list \<times> 'srv" where
  "handleBulkUpdate put filteredAttendance st page =
     (let (attendanceData, srv) = page;
          ids = map att_id filteredAttendance;
          (result, srv') = bulkUpdateAttendance put ids st srv
      in case result of
           Inr updatedRecords \<Rightarrow>
             (map (\<lambda>r. case find (\<lambda>u. att_id u = att_id r) updatedRecords of
                          Some u \<Rightarrow> u | None \<Rightarrow> r) attendanceData, srv')
         | Inl error \<Rightarrow> (attendanceData, srv'))"

text \<open>
  The claim's wording, as a function of its own: \<open>updateAttendanceStatus(id, status)\<close>
  issued once per id, in order, one after the other; the outcomes are collected.
\<close>

fun sequentialUpdates ::
  "'srv backend \<Rightarrow> nat list \<Rightarrow> AttendanceStatus \<Rightarrow> 'srv \<Rightarrow> (AxiosError + Attendance) list \<times> 'srv" where
  "sequentialUpdates put [] st srv = ([], srv)"
| "sequentialUpdates put (ident # ids) st srv =
     (case updateAttendanceStatus put ident st srv of
        (r, srv1) \<Rightarrow> (case sequentialUpdates put ids st srv1 of (rs, srv2) \<Rightarrow> (r # rs, srv2)))"

text \<open>
  A backend to run the functions on: the stored records, where an update of a
  stored id sets its status and answers with the record, and an update of an
  unknown id answers 404 and changes nothing.
\<close>

definition listBackend :: "Attendance list backend" where
  "listBackend srv ident st =
     (case find (\<lambda>r. att_id r = ident) srv of
        None \<Rightarrow> (Inl (HttpError 404), srv)
      | Some r \<Rightarrow>
          (Inr (r\<lparr>att_status := st\<rparr>),
           map (\<lambda>x. if att_id x = ident then x\<lparr>att_status := st\<rparr> else x) srv))"

subsection \<open>Student dashboard: state, camera and verification handlers\<close>

text \<open>
  The state of the \<open>StudentDashboard\<close> component and of the part of the browser it
  acts on. The first six fields are the React state variables; \<open>videoRef\<close> is
  \<open>videoRef.current\<close>, \<open>None\<close> while no video element is mounted. The other fields
  are the world outside the component: the media streams whose tracks have not been
  stopped, the \<open>getUserMedia\<close> calls and verification requests still awaited, the
  requests posted to \<open>/api/face-verification\<close>, the toasts shown, and the frames
  captured so far (the data URLs \<open>capturePhoto\<close> has stored, oldest first). Of
  \<open>StudentData\<close> only \<open>last_check_in\<close> is read by the check-in logic; the other
  fields are rendered and nothing else.
\<close>

record StudentData =
  last_check_in :: string

record Video =
  srcObject :: "nat option"
  videoWidth :: nat
  videoHeight :: nat

record Canvas =
  width :: nat
  height :: nat
  drawn :: string

datatype Toast =
  NoImageCaptured | CameraError | AttendanceVerified | AttendanceNotVerified | AttendanceError

record VerificationRequest =
  student_id :: nat
  image_data :: "string option"

record Dashboard =
  studentData :: "StudentData option"
  isChecking :: bool
  isVerified :: bool
  isCameraOpen :: bool
  capturedImage :: "string option"
  isWithinCollegeRadius :: bool
  videoRef :: "Video option"
  liveStreams :: "nat list"
  pendingCamera :: nat
  inFlight :: nat
  posted :: "VerificationRequest list"
  toasts :: "Toast list"
  captured :: "string list"

text \<open>The component as first mounted.\<close>

definition initial :: Dashboard where
  "initial =
     \<lparr>studentData = None, isChecking = False, isVerified = False, isCameraOpen = False,
      capturedImage = None, isWithinCollegeRadius = False, videoRef = None,
      liveStreams = [], pendingCamera = 0, inFlight = 0, posted = [], toasts = [],
      captured = []\<rparr>"

text \<open>An awaited promise settles as fulfilled with a value, or as rejected.\<close>

datatype 'a settled = Fulfilled 'a | Rejected

text \<open>JavaScript truthiness of \<open>capturedImage\<close>: \<open>null\<close> and the empty string are falsy.\<close>

definition truthy :: "string option \<Rightarrow> bool" where
  "truthy v = (case v of None \<Rightarrow> False | Some str \<Rightarrow> str \<noteq> [])"

text \<open>
  \<open>closeCamera\<close>: when the video element is mounted and has a stream, every track
  of the stream is stopped and \<open>srcObject\<close> is set to null (the element then reports
  no dimensions). Otherwise nothing happens.
\<close>

definition closeCamera :: "Dashboard \<Rightarrow> Dashboard" where
  "closeCamera s =
     (case videoRef s of
        None \<Rightarrow> s
      | Some video \<Rightarrow>
          (case srcObject video of
             None \<Rightarrow> s
           | Some stream \<Rightarrow>
               s\<lparr>liveStreams := removeAll stream (liveStreams s),
                 videoRef := Some (video\<lparr>srcObject := None, videoWidth := 0, videoHeight := 0\<rparr>)\<rparr>))"

text \<open>
  \<open>openCamera\<close> up to its \<open>await\<close>: the existing stream is closed, the dialog is
  opened, and \<open>getUserMedia\<close> is called.
\<close>

definition openCamera_begin :: "Dashboard \<Rightarrow> Dashboard" where
  "openCamera_begin s =
     (let s1 = closeCamera s
      in s1\<lparr>isCameraOpen := True, pendingCamera := Suc (pendingCamera s1)\<rparr>)"

text \<open>
  \<open>openCamera\<close> after its \<open>await\<close>: a granted stream is live from then on, and is
  attached to the video element if one is mounted; a refusal shows the toast
  "Camera Error" and calls \<open>closeCamera\<close>.
\<close>

definition openCamera_resume :: "nat settled \<Rightarrow> Dashboard \<Rightarrow> Dashboard" where
  "openCamera_resume outcome s =
     (case outcome of
        Fulfilled stream \<Rightarrow>
          (let s1 = s\<lparr>liveStreams := stream # liveStreams s\<rparr>
           in case videoRef s1 of
                None \<Rightarrow> s1
              | Some video \<Rightarrow> s1\<lparr>videoRef := Some (video\<lparr>srcObject := Some stream\<rparr>)\<rparr>)
      | Rejected \<Rightarrow> closeCamera (s\<lparr>toasts := toasts s @ [CameraError]\<rparr>))"

text \<open>
  \<open>canvas.toDataURL("image/jpeg")\<close>: a canvas without pixels (width or height 0)
  gives the string \<open>data:,\<close>; otherwise the encoded picture follows the media type.
\<close>

definition toDataURL :: "Canvas \<Rightarrow> string" where
  "toDataURL canvas =
     (if width canvas = 0 \<or> height canvas = 0 then ''data:,''
      else ''data:image/jpeg;base64,'' @ drawn canvas)"

text \<open>
  \<open>capturePhoto\<close>; \<open>frame\<close> is the encoded picture the camera shows at that
  moment. The canvas takes the dimensions the video element reports.
\<close>

definition capturePhoto :: "string \<Rightarrow> Dashboard \<Rightarrow> Dashboard" where
  "capturePhoto frame s =
     (case videoRef s of
        None \<Rightarrow> s
      | Some video \<Rightarrow>
          (let canvas = \<lparr>width = videoWidth video, height = videoHeight video, drawn = frame\<rparr>;
               imageDataUrl = toDataURL canvas
           in closeCamera (s\<lparr>capturedImage := Some imageDataUrl, captured := captured s @ [imageDataUrl]\<rparr>)))"

definition retakePhoto :: "Dashboard \<Rightarrow> Dashboard" where
  "retakePhoto s = openCamera_begin (s\<lparr>capturedImage := None\<rparr>)"

text \<open>\<open>capturedImage.split(',')[1]\<close>: the text between the first comma and the next, if any.\<close>

definition split_comma_1 :: "string \<Rightarrow> string option" where
  "split_comma_1 str =
     (case dropWhile (\<lambda>c. c \<noteq> CHR '','') str of
        [] \<Rightarrow> None
      | comma # rest \<Rightarrow> Some (takeWhile (\<lambda>c. c \<noteq> CHR '','') rest))"

text \<open>
  \<open>handleAttendance\<close> up to its \<open>await\<close>: without a captured image the toast "No
  Image Captured" is shown and the function returns (no request); otherwise the
  request to post is returned with the state.
\<close>

definition handleAttendance_begin ::
  "nat \<Rightarrow> Dashboard \<Rightarrow> Dashboard \<times> VerificationRequest option" where
  "handleAttendance_begin ident s =
     (let s1 = s\<lparr>isChecking := True\<rparr>
      in if \<not> truthy (capturedImage s1)
         then (s1\<lparr>toasts := toasts s1 @ [NoImageCaptured], isChecking := False\<rparr>, None)
         else (s1, Some \<lparr>student_id = ident,
                          image_data = (case capturedImage s1 of
                                          None \<Rightarrow> None
                                        | Some img \<Rightarrow> split_comma_1 img)\<rparr>))"

text \<open>
  \<open>handleAttendance\<close> after its \<open>await\<close>: the \<open>try\<close> branch for an answer (with
  its \<open>verified\<close> flag), the \<open>catch\<close> branch for a rejection, then \<open>finally\<close>.
\<close>

definition handleAttendance_resume :: "bool settled \<Rightarrow> Dashboard \<Rightarrow> Dashboard" where
  "handleAttendance_resume outcome s =
     (let s1 =
        (case outcome of
           Fulfilled verified \<Rightarrow>
             (let s2 = closeCamera (s\<lparr>isVerified := verified\<rparr>)
              in s2\<lparr>isCameraOpen := False, capturedImage := None,
                    toasts := toasts s2 @
                      [if verified then AttendanceVerified else AttendanceNotVerified]\<rparr>)
         | Rejected \<Rightarrow>
             (let s2 = closeCamera s
              in s2\<lparr>isCameraOpen := False, capturedImage := None,
                    toasts := toasts s2 @ [AttendanceError]\<rparr>))
      in closeCamera (s1\<lparr>isChecking := False, isCameraOpen := False, capturedImage := None\<rparr>))"

text \<open>
  The request is made by \<open>axios.post(url, data)\<close>, without a configuration, so with
  the defaults of axios, whose \<open>timeout\<close> is 0: no timeout. The transport either
  answers after some milliseconds or stays silent. With a positive timeout axios
  rejects the promise when the answer takes longer; with timeout 0 the promise
  settles only when the transport answers (\<open>None\<close>: it never settles).
\<close>

datatype Transport = Answers nat "bool settled" | Silent

record AxiosConfig =
  timeout :: nat

definition axios_defaults :: AxiosConfig where
  "axios_defaults = \<lparr>timeout = 0\<rparr>"

definition axios_post :: "AxiosConfig \<Rightarrow> Transport \<Rightarrow> bool settled option" where
  "axios_post config transport =
     (case transport of
        Answers ms outcome \<Rightarrow>
          (if 0 < timeout config \<and> timeout config < ms then Some Rejected else Some outcome)
      | Silent \<Rightarrow> (if 0 < timeout config then Some Rejected else None))"

text \<open>
  \<open>handleAttendance\<close> as a whole, for a network that gives each request its
  transport behaviour. The result is the state in which the function returns, or
  \<open>None\<close> when it never gets past its \<open>await\<close>.
\<close>

definition handleAttendance ::
  "(VerificationRequest \<Rightarrow> Transport) \<Rightarrow> nat \<Rightarrow> Dashboard \<Rightarrow> Dashboard option" where
  "handleAttendance network ident s =
     (case handleAttendance_begin ident s of
        (s1, None) \<Rightarrow> Some s1
      | (s1, Some request) \<Rightarrow>
          (case axios_post axios_defaults (network request) of
             None \<Rightarrow> None
           | Some outcome \<Rightarrow>
               Some (handleAttendance_resume outcome (s1\<lparr>posted := posted s1 @ [request]\<rparr>))))"

text \<open>
  Rendering after a handler has run: the dialog shows its content only while
  \<open>isCameraOpen\<close> holds, and the content is the video element exactly when there is
  no captured image. A newly mounted video element has no stream and no dimensions;
  an unmounted one leaves \<open>videoRef.current\<close> null.
\<close>

definition render :: "Dashboard \<Rightarrow> Dashboard" where
  "render s =
     (if isCameraOpen s \<and> \<not> truthy (capturedImage s)
      then (case videoRef s of
              None \<Rightarrow> s\<lparr>videoRef := Some \<lparr>srcObject = None, videoWidth = 0, videoHeight = 0\<rparr>\<rparr>
            | Some video \<Rightarrow> s)
      else s\<lparr>videoRef := None\<rparr>)"

text \<open>
  What can happen to the dashboard: the clicks on its buttons ("Take Attendance",
  which is never disabled; "Capture", "Retake" and "Submit for Verification" in the
  dialog), the dialog's \<open>onOpenChange\<close>, the video element learning the dimensions
  of its stream, and the settling of the promises awaited.
\<close>

datatype Event =
    TakeAttendance
  | CameraSettled "nat settled"
  | VideoLoaded nat nat
  | Capture string
  | Retake
  | SubmitForVerification
  | VerificationSettled "bool settled"
  | DialogOpenChange bool

text \<open>
  The handler of each event, for the student \<open>props.id\<close>. A button acts only while
  it is rendered and enabled: "Capture" while the dialog is open without a captured
  image, "Retake" and "Submit" while it is open with one, "Submit" only while
  \<open>isChecking\<close> is false (\<open>disabled={isChecking}\<close>). A promise settles only while it
  is awaited.
\<close>

fun handle :: "nat \<Rightarrow> Event \<Rightarrow> Dashboard \<Rightarrow> Dashboard" where
  "handle ident TakeAttendance s = openCamera_begin s"
| "handle ident (CameraSettled outcome) s =
     (if pendingCamera s = 0 then s
      else openCamera_resume outcome (s\<lparr>pendingCamera := pendingCamera s - 1\<rparr>))"
| "handle ident (VideoLoaded w h) s =
     (case videoRef s of
        None \<Rightarrow> s
      | Some video \<Rightarrow>
          (if srcObject video = None then s
           else s\<lparr>videoRef := Some (video\<lparr>videoWidth := w, videoHeight := h\<rparr>)\<rparr>))"
| "handle ident (Capture frame) s =
     (if isCameraOpen s \<and> \<not> truthy (capturedImage s) then capturePhoto frame s else s)"
| "handle ident Retake s =
     (if isCameraOpen s \<and> truthy (capturedImage s) then retakePhoto s else s)"
| "handle ident SubmitForVerification s =
     (if isCameraOpen s \<and> truthy (capturedImage s) \<and> \<not> isChecking s
      then (case handleAttendance_begin ident s of
              (s1, None) \<Rightarrow> s1
            | (s1, Some request) \<Rightarrow>
                s1\<lparr>posted := posted s1 @ [request], inFlight := Suc (inFlight s1)\<rparr>)
      else s)"
| "handle ident (VerificationSettled outcome) s =
     (if inFlight s = 0 then s
      else handleAttendance_resume outcome (s\<lparr>inFlight := inFlight s - 1\<rparr>))"
| "handle ident (DialogOpenChange isOpen) s = s\<lparr>isCameraOpen := isOpen\<rparr>"

definition step :: "nat \<Rightarrow> Event \<Rightarrow> Dashboard \<Rightarrow> Dashboard" where
  "step ident e s = render (handle ident e s)"

fun run :: "nat \<Rightarrow> Event list \<Rightarrow> Dashboard \<Rightarrow> Dashboard" where
  "run ident [] s = s"
| "run ident (e # es) s = run ident es (step ident e s)"

text \<open>The check-in flow is idle: dialog closed, no captured image, no verification running.\<close>

definition idle :: "Dashboard \<Rightarrow> bool" where
  "idle s = (\<not> isCameraOpen s \<and> capturedImage s = None \<and> \<not> isChecking s)"

text \<open>The stream attached to the preview, if any.\<close>

definition attached :: "Dashboard \<Rightarrow> nat option" where
  "attached s = (case videoRef s of None \<Rightarrow> None | Some video \<Rightarrow> srcObject video)"

text \<open>
  A captured frame that no request has consumed yet: there is an image and no
  verification is running.
\<close>

definition unspent :: "Dashboard \<Rightarrow> nat" where
  "unspent s = (if truthy (capturedImage s) \<and> \<not> isChecking s then 1 else 0)"

fun is_Capture :: "Event \<Rightarrow> bool" where
  "is_Capture (Capture frame) = True"
| "is_Capture e = False"

text \<open>
  The effect on \<open>[studentData]\<close>: once student data is there, \<open>isVerified\<close> becomes
  the comparison of the two \<open>toDateString()\<close> results. \<open>Date_parse\<close> is the parsing
  of \<open>new Date(string)\<close> (\<open>None\<close>: invalid date), \<open>now\<close> the time value of
  \<open>new Date()\<close>.
\<close>

definition isVerifiedEffect ::
  "(string \<Rightarrow> int option) \<Rightarrow> (int \<Rightarrow> int) \<Rightarrow> int \<Rightarrow> Dashboard \<Rightarrow> Dashboard" where
  "isVerifiedEffect Date_parse LocalTZA now s =
     (case studentData s of
        None \<Rightarrow> s
      | Some data \<Rightarrow>
          s\<lparr>isVerified :=
              (toDateString LocalTZA (Date_parse (last_check_in data))
               = toDateString LocalTZA (Some now))\<rparr>)"

text \<open>\<open>setStudentData(data)\<close> after the fetch, followed by the effect it triggers.\<close>

definition studentDataLoaded ::
  "(string \<Rightarrow> int option) \<Rightarrow> (int \<Rightarrow> int) \<Rightarrow> int \<Rightarrow> StudentData \<Rightarrow> Dashboard \<Rightarrow> Dashboard" where
  "studentDataLoaded Date_parse LocalTZA now data s =
     isVerifiedEffect Date_parse LocalTZA now (s\<lparr>studentData := Some data\<rparr>)"

text \<open>The number of frames captured so far.\<close>

definition captures :: "Dashboard \<Rightarrow> nat" where
  "captures s = length (captured s)"

text \<open>
  The captured frames that a request may have consumed already: all of them, but
  for the latest while it is held unspent.
\<close>

definition consumable :: "Dashboard \<Rightarrow> string list" where
  "consumable s =
     (if truthy (capturedImage s) \<and> \<not> isChecking s then butlast (captured s) else captured s)"

text \<open>
  The frame held is the latest capture, and the payloads of the requests posted
  are, in order, payloads of consumable captures, each capture used once at most.
\<close>

definition frames_accounted :: "Dashboard \<Rightarrow> bool" where
  "frames_accounted s =
     ((case capturedImage s of
         None \<Rightarrow> True
       | Some img \<Rightarrow> captured s \<noteq> [] \<and> last (captured s) = img)
      \<and> subseq (map image_data (posted s)) (map split_comma_1 (consumable s)))"

text \<open>The toast \<open>handleAttendance\<close> shows for an outcome of the request.\<close>

definition outcomeToast :: "bool settled \<Rightarrow> Toast" where
  "outcomeToast outcome =
     (case outcome of
        Fulfilled verified \<Rightarrow> (if verified then AttendanceVerified else AttendanceNotVerified)
      | Rejected \<Rightarrow> AttendanceError)"


text \<open>Event sequences of two check-ins, used as concrete inputs.\<close>

definition one_capture :: "Event list" where
  "one_capture = [TakeAttendance, CameraSettled (Fulfilled 7), VideoLoaded 640 480, Capture ''QUJD'']"

definition two_submissions :: "Event list" where
  "two_submissions =
     [TakeAttendance, CameraSettled (Fulfilled 7), VideoLoaded 640 480, Capture ''QUJD'',
      SubmitForVerification, VerificationSettled (Fulfilled False),
      TakeAttendance, CameraSettled (Fulfilled 8), VideoLoaded 640 480, Capture ''WFla'',
      SubmitForVerification]"

definition no_capture :: "Event list" where
  "no_capture =
     [TakeAttendance, CameraSettled (Fulfilled 8), SubmitForVerification, Retake,
      SubmitForVerification, DialogOpenChange False]"


definition verified_check_in :: "Event list" where
  "verified_check_in =
     [TakeAttendance, CameraSettled (Fulfilled 7), VideoLoaded 640 480, Capture ''QUJD'',
      SubmitForVerification, VerificationSettled (Fulfilled True)]"
section \<open>Properties\<close>

subsection \<open>Attendance Ledger\<close>

lemma find_is_for_append:
  "find (is_for sid d) L = None \<Longrightarrow> find (is_for sid d) (L @ [\<lparr>studentId = sid, date = d, status = Present, recordedAt = t\<rparr>])
     = Some \<lparr>studentId = sid, date = d, status = Present, recordedAt = t\<rparr>"
  by (induction L) (auto simp: is_for_def)

lemma recordVerifiedCheckIn_finds:
  "recordVerifiedCheckIn L sid d t = (r, L') \<Longrightarrow> find (is_for sid d) L' = Some r"
  by (auto simp: recordVerifiedCheckIn_def Let_def find_is_for_append split: option.splits)

lemma recordVerifiedCheckIn_again:
  "find (is_for sid d) L = Some r \<Longrightarrow> recordVerifiedCheckIn L sid d t = (r, L)"
  by (simp add: recordVerifiedCheckIn_def)

lemma repeatCheckIn_existing:
  "find (is_for sid d) L = Some r \<Longrightarrow> repeatCheckIn L sid d ts = (replicate (length ts) r, L)"
  by (induction ts) (simp_all add: recordVerifiedCheckIn_again)

lemma count_key_filter:
  "at_most_one L \<Longrightarrow> length (filter (is_for sid d) L) \<le> 1"
proof (induction L)
  case Nil
  then show ?case by simp
next
  case (Cons r L)
  then have IH: "length (filter (is_for sid d) L) \<le> 1"
    by (simp add: at_most_one_def)
  show ?case
  proof (cases "is_for sid d r")
    case True
    from Cons.prems have "(sid, d) \<notin> (\<lambda>r. (studentId r, date r)) ` set L"
      using True by (auto simp: at_most_one_def is_for_def)
    then have "filter (is_for sid d) L = []"
      by (auto simp: filter_empty_conv is_for_def)
    with True show ?thesis by simp
  next
    case False
    with IH show ?thesis by simp
  qed
qed

lemma find_Some_filter_pos:
  "find P L = Some r \<Longrightarrow> 1 \<le> length (filter P L)"
  by (induction L) (auto split: if_splits)

lemma find_None_filter:
  "find P L = None \<Longrightarrow> filter P L = []"
  by (induction L) (auto split: if_splits)

lemma recordVerifiedCheckIn_count:
  assumes "at_most_one L" and "recordVerifiedCheckIn L sid d t = (r, L')"
  shows "length (filter (is_for sid d) L') = 1"
proof (cases "find (is_for sid d) L")
  case None
  with assms(2) have "L' = L @ [\<lparr>studentId = sid, date = d, status = Present, recordedAt = t\<rparr>]"
    by (auto simp: recordVerifiedCheckIn_def Let_def)
  with None show ?thesis
    by (simp add: find_None_filter is_for_def)
next
  case (Some r0)
  with assms(2) have "L' = L" by (simp add: recordVerifiedCheckIn_def)
  with Some assms(1) show ?thesis
    using count_key_filter [of L sid d] find_Some_filter_pos [of "is_for sid d" L r0] by simp
qed

subsection \<open>Geofence distance: auxiliary facts\<close>

lemma cos_cos_half:
  "cos x * cos y = 1 - (sin ((y - x) / 2))\<^sup>2 - (sin ((x + y) / 2))\<^sup>2" for x y :: real
proof -
  have e: "2 * ((y - x) / 2) = y - x" "2 * ((x + y) / 2) = x + y"
    by simp_all
  have a: "cos (y - x) = 1 - 2 * (sin ((y - x) / 2))\<^sup>2"
    using cos_double_sin [of "(y - x) / 2"] unfolding e .
  have b: "cos (x + y) = 1 - 2 * (sin ((x + y) / 2))\<^sup>2"
    using cos_double_sin [of "(x + y) / 2"] unfolding e .
  have "cos (y - x) + cos (x + y) = 2 * (cos x * cos y)"
    by (simp add: cos_add cos_diff)
  with a b show ?thesis by simp
qed

lemma hav_range:
  fixes p1 p2 v :: real
  defines "a \<equiv> (sin ((p2 - p1) / 2))\<^sup>2 + cos p1 * cos p2 * (sin v)\<^sup>2"
  shows "0 \<le> a \<and> a \<le> 1"
proof -
  define p where "p = (sin ((p2 - p1) / 2))\<^sup>2"
  define q where "q = (sin ((p1 + p2) / 2))\<^sup>2"
  define s where "s = (sin v)\<^sup>2"
  have bp: "0 \<le> p" "p \<le> 1" and bq: "0 \<le> q" "q \<le> 1" and bs: "0 \<le> s" "s \<le> 1"
    by (simp_all add: p_def q_def s_def abs_square_le_1)
  have a: "a = p * (1 - s) + s * (1 - q)"
    unfolding a_def cos_cos_half p_def q_def s_def by (simp add: algebra_simps)
  define A where "A = p * (1 - s)"
  define B where "B = s * (1 - q)"
  have "0 \<le> A" "0 \<le> B" using bp bq bs by (simp_all add: A_def B_def)
  moreover have "A \<le> 1 * (1 - s)"
    unfolding A_def using bp bs by (intro mult_right_mono) simp_all
  moreover have "B \<le> s * 1"
    unfolding B_def using bs bq by (intro mult_left_mono) simp_all
  ultimately have "0 \<le> A + B" "A + B \<le> 1"
    by simp_all
  then show ?thesis unfolding a A_def B_def by simp
qed

lemma atan2_sqrt_arcsin:
  assumes "0 \<le> a" "a \<le> 1"
  shows "atan2 (sqrt a) (sqrt (1 - a)) = arcsin (sqrt a)"
proof (cases "a = 1")
  case True
  then show ?thesis by (simp add: atan2_def)
next
  case False
  with assms have lt: "a < 1" by simp
  define s where "s = sqrt a"
  have s: "0 \<le> s" "s < 1" using assms lt by (simp_all add: s_def)
  have s2: "s\<^sup>2 = a" using assms by (simp add: s_def)
  have pos: "0 < sqrt (1 - a)" using lt by simp
  have c: "cos (arcsin s) = sqrt (1 - a)"
    using s s2 by (simp add: cos_arcsin)
  have "sin (arcsin s) = s" using s by simp
  then have t: "tan (arcsin s) = s / sqrt (1 - a)"
    by (simp add: tan_def c)
  have rng: "- (pi / 2) < arcsin s" "arcsin s < pi / 2"
    using s arcsin_lt_bounded [of s] by simp_all
  have "arctan (tan (arcsin s)) = arcsin s"
    using rng by (rule arctan_tan)
  with t pos show ?thesis by (simp add: atan2_def s_def)
qed

lemma exact_simps:
  "fl exact x = x" "Math_PI exact = pi" "Math_sin exact = sin" "Math_cos exact = cos"
  "Math_atan2 exact = atan2"
  by (simp_all add: exact_def)

lemma deg2rad_exact: "deg2rad exact deg = deg * pi / 180"
  by (simp add: deg2rad_def exact_simps)

lemma haversine_a_exact:
  "haversine_a exact lat1 lon1 lat2 lon2 =
     (sin ((lat2 - lat1) * pi / 360))\<^sup>2 +
     cos (lat1 * pi / 180) * cos (lat2 * pi / 180) * (sin ((lon2 - lon1) * pi / 360))\<^sup>2"
  by (simp add: haversine_a_def deg2rad_exact exact_simps Let_def power2_eq_square)

lemma haversine_a_exact_bounds:
  "0 \<le> haversine_a exact lat1 lon1 lat2 lon2" "haversine_a exact lat1 lon1 lat2 lon2 \<le> 1"
proof -
  have e: "(lat2 - lat1) * pi / 360 = (lat2 * pi / 180 - lat1 * pi / 180) / 2"
    by (simp add: field_simps)
  show "0 \<le> haversine_a exact lat1 lon1 lat2 lon2" "haversine_a exact lat1 lon1 lat2 lon2 \<le> 1"
    unfolding haversine_a_exact e
    using hav_range [of "lat2 * pi / 180" "lat1 * pi / 180" "(lon2 - lon1) * pi / 360"]
    by simp_all
qed

lemma haversine_a: "haversine lat1 lon1 lat2 lon2 =
    2 * 6371000 * arcsin (sqrt (haversine_a exact lat1 lon1 lat2 lon2))"
  by (simp only: haversine_def haversine_a_exact)

lemma getDistance_a:
  "getDistanceFromLatLonInMeters M lat1 lon1 lat2 lon2 =
     (case Math_sqrt M (haversine_a M lat1 lon1 lat2 lon2) of
        None \<Rightarrow> None
      | Some root_a \<Rightarrow>
          (case Math_sqrt M (fl M (1 - haversine_a M lat1 lon1 lat2 lon2)) of
             None \<Rightarrow> None
           | Some root_1a \<Rightarrow> Some (fl M (6371000 * fl M (2 * Math_atan2 M root_a root_1a)))))"
  by (simp only: getDistanceFromLatLonInMeters_def haversine_a_def Let_def)

lemma getDistance_exact:
  "getDistanceFromLatLonInMeters exact lat1 lon1 lat2 lon2 = Some (haversine lat1 lon1 lat2 lon2)"
proof -
  define a where "a = haversine_a exact lat1 lon1 lat2 lon2"
  have r: "0 \<le> a" "a \<le> 1" unfolding a_def by (rule haversine_a_exact_bounds)+
  have "getDistanceFromLatLonInMeters exact lat1 lon1 lat2 lon2
      = Some (6371000 * (2 * atan2 (sqrt a) (sqrt (1 - a))))"
    using r by (simp add: getDistance_a a_def [symmetric] Math_sqrt_def exact_simps)
  also have "\<dots> = Some (2 * 6371000 * arcsin (sqrt a))"
    using r by (simp add: atan2_sqrt_arcsin)
  finally show ?thesis by (simp only: haversine_a a_def)
qed

lemma getDistance_None_iff:
  "(getDistanceFromLatLonInMeters M lat1 lon1 lat2 lon2 = None) =
     (haversine_a M lat1 lon1 lat2 lon2 < 0 \<or> fl M (1 - haversine_a M lat1 lon1 lat2 lon2) < 0)"
  by (simp add: getDistance_a Math_sqrt_def)

lemma getDistance_same:
  assumes "fl M 0 = 0" "fl M 1 = 1" "Math_sin M 0 = 0" "Math_atan2 M 0 1 = 0"
  shows "getDistanceFromLatLonInMeters M lat lon lat lon = Some 0"
proof -
  have d: "deg2rad M 0 = 0" by (simp add: deg2rad_def assms)
  have a: "haversine_a M lat lon lat lon = 0"
    by (simp add: haversine_a_def Let_def assms d)
  show ?thesis
    by (simp add: getDistance_a a Math_sqrt_def assms)
qed

lemma haversine_range:
  "0 \<le> haversine lat1 lon1 lat2 lon2" "haversine lat1 lon1 lat2 lon2 \<le> pi * 6371000"
proof -
  define s where "s = sqrt (haversine_a exact lat1 lon1 lat2 lon2)"
  have s: "0 \<le> s" "s \<le> 1"
    using haversine_a_exact_bounds [of lat1 lon1 lat2 lon2] by (simp_all add: s_def)
  have lo: "0 \<le> arcsin s" using s by (simp add: arcsin_nonneg)
  have hi: "arcsin s \<le> pi / 2" using s arcsin_bounded [of s] by simp
  show "0 \<le> haversine lat1 lon1 lat2 lon2" "haversine lat1 lon1 lat2 lon2 \<le> pi * 6371000"
    unfolding haversine_a s_def [symmetric] using lo hi by simp_all
qed

lemma haversine_cos:
  "cos (haversine lat1 lon1 lat2 lon2 / 6371000) =
     sin (lat1 * pi / 180) * sin (lat2 * pi / 180) +
     cos (lat1 * pi / 180) * cos (lat2 * pi / 180) * cos ((lon2 - lon1) * pi / 180)"
proof -
  define a where "a = haversine_a exact lat1 lon1 lat2 lon2"
  define s where "s = sqrt a"
  have r: "0 \<le> a" "a \<le> 1" unfolding a_def by (rule haversine_a_exact_bounds)+
  have s: "0 \<le> s" "s \<le> 1" "s\<^sup>2 = a" using r by (simp_all add: s_def)
  have "haversine lat1 lon1 lat2 lon2 / 6371000 = 2 * arcsin s"
    by (simp add: haversine_a a_def s_def)
  then have "cos (haversine lat1 lon1 lat2 lon2 / 6371000) = 1 - 2 * (sin (arcsin s))\<^sup>2"
    by (simp only: cos_double_sin)
  also have "\<dots> = 1 - 2 * a" using s by simp
  finally have c: "cos (haversine lat1 lon1 lat2 lon2 / 6371000) = 1 - 2 * a" .
  have e: "2 * ((lat2 - lat1) * pi / 360) = lat2 * pi / 180 - lat1 * pi / 180"
    "2 * ((lon2 - lon1) * pi / 360) = (lon2 - lon1) * pi / 180"
    by (simp_all add: field_simps)
  have p: "2 * (sin ((lat2 - lat1) * pi / 360))\<^sup>2 = 1 - cos (lat2 * pi / 180 - lat1 * pi / 180)"
    using cos_double_sin [of "(lat2 - lat1) * pi / 360"] unfolding e by simp
  have q: "2 * (sin ((lon2 - lon1) * pi / 360))\<^sup>2 = 1 - cos ((lon2 - lon1) * pi / 180)"
    using cos_double_sin [of "(lon2 - lon1) * pi / 360"] unfolding e by simp
  have "2 * a = 2 * (sin ((lat2 - lat1) * pi / 360))\<^sup>2 +
      cos (lat1 * pi / 180) * cos (lat2 * pi / 180) * (2 * (sin ((lon2 - lon1) * pi / 360))\<^sup>2)"
    by (simp add: a_def haversine_a_exact algebra_simps)
  also have "\<dots> = 1 - cos (lat2 * pi / 180 - lat1 * pi / 180) +
      cos (lat1 * pi / 180) * cos (lat2 * pi / 180) * (1 - cos ((lon2 - lon1) * pi / 180))"
    by (simp only: p q)
  finally have "1 - 2 * a = cos (lat2 * pi / 180 - lat1 * pi / 180)
      - cos (lat1 * pi / 180) * cos (lat2 * pi / 180) * (1 - cos ((lon2 - lon1) * pi / 180))"
    by simp
  also have "\<dots> = sin (lat1 * pi / 180) * sin (lat2 * pi / 180) +
     cos (lat1 * pi / 180) * cos (lat2 * pi / 180) * cos ((lon2 - lon1) * pi / 180)"
    by (simp add: cos_diff algebra_simps)
  finally show ?thesis using c by simp
qed

lemma haversine_sym: "haversine lat1 lon1 lat2 lon2 = haversine lat2 lon2 lat1 lon1"
proof -
  have m: "(sin ((x - y) * pi / 360))\<^sup>2 = (sin ((y - x) * pi / 360))\<^sup>2" for x y :: real
  proof -
    have "(x - y) * pi / 360 = - ((y - x) * pi / 360)" by (simp add: field_simps)
    then show ?thesis by (simp only: sin_minus power2_minus)
  qed
  show ?thesis
    unfolding haversine_def m [of lat2 lat1] m [of lon2 lon1] by (simp add: mult.commute)
qed

lemma arcsin_abs_sin:
  assumes "\<bar>x\<bar> \<le> pi / 2"
  shows "arcsin (sqrt ((sin x)\<^sup>2)) = \<bar>x\<bar>"
proof -
  have "sqrt ((sin x)\<^sup>2) = \<bar>sin x\<bar>" by simp
  also have "\<dots> = sin \<bar>x\<bar>"
  proof (cases "0 \<le> x")
    case True
    then have "0 \<le> sin x" using assms by (intro sin_ge_zero) simp_all
    with True show ?thesis by simp
  next
    case False
    then have "0 \<le> sin (- x)" using assms by (intro sin_ge_zero) simp_all
    with False show ?thesis by simp
  qed
  finally have "arcsin (sqrt ((sin x)\<^sup>2)) = arcsin (sin \<bar>x\<bar>)" by simp
  also have "\<dots> = \<bar>x\<bar>" using assms by (intro arcsin_sin) simp_all
  finally show ?thesis .
qed

lemma haversine_meridian:
  assumes "\<bar>lat2 - lat1\<bar> \<le> 180"
  shows "haversine lat1 lon lat2 lon = 6371000 * (\<bar>lat2 - lat1\<bar> * pi / 180)"
proof -
  have b: "\<bar>(lat2 - lat1) * pi / 360\<bar> \<le> pi / 2"
  proof -
    have "\<bar>(lat2 - lat1) * pi / 360\<bar> = \<bar>lat2 - lat1\<bar> * pi / 360"
      by (simp add: abs_mult)
    also have "\<dots> \<le> 180 * pi / 360"
      using assms by (intro divide_right_mono mult_right_mono) simp_all
    finally show ?thesis by simp
  qed
  have "haversine lat1 lon lat2 lon = 2 * 6371000 * arcsin (sqrt ((sin ((lat2 - lat1) * pi / 360))\<^sup>2))"
    by (simp add: haversine_def)
  also have "\<dots> = 2 * 6371000 * \<bar>(lat2 - lat1) * pi / 360\<bar>"
    by (simp only: arcsin_abs_sin [OF b])
  finally show ?thesis by (simp add: abs_mult)
qed

lemma haversine_equator:
  assumes "\<bar>lon2 - lon1\<bar> \<le> 180"
  shows "haversine 0 lon1 0 lon2 = 6371000 * (\<bar>lon2 - lon1\<bar> * pi / 180)"
proof -
  have b: "\<bar>(lon2 - lon1) * pi / 360\<bar> \<le> pi / 2"
  proof -
    have "\<bar>(lon2 - lon1) * pi / 360\<bar> = \<bar>lon2 - lon1\<bar> * pi / 360"
      by (simp add: abs_mult)
    also have "\<dots> \<le> 180 * pi / 360"
      using assms by (intro divide_right_mono mult_right_mono) simp_all
    finally show ?thesis by simp
  qed
  have "haversine 0 lon1 0 lon2 = 2 * 6371000 * arcsin (sqrt ((sin ((lon2 - lon1) * pi / 360))\<^sup>2))"
    by (simp add: haversine_def)
  also have "\<dots> = 2 * 6371000 * \<bar>(lon2 - lon1) * pi / 360\<bar>"
    by (simp only: arcsin_abs_sin [OF b])
  finally show ?thesis by (simp add: abs_mult)
qed

lemma haversine_lon_360: "haversine lat1 (lon1 + 360) lat2 lon2 = haversine lat1 lon1 lat2 lon2"
proof -
  have e: "(lon2 - (lon1 + 360)) * pi / 360 = (lon2 - lon1) * pi / 360 - pi"
    by (simp add: field_simps)
  have "(sin ((lon2 - (lon1 + 360)) * pi / 360))\<^sup>2 = (sin ((lon2 - lon1) * pi / 360))\<^sup>2"
    unfolding e by (simp add: sin_diff)
  then show ?thesis by (simp only: haversine_def)
qed

subsection \<open>Dates: a rendered date determines the local calendar day\<close>

declare digits.simps [simp del]

lemma min3_div_bounds:
  fixes r k :: int
  assumes "0 \<le> r" "0 < k" "r \<le> 4 * k"
  defines "n \<equiv> min 3 (r div k)"
  shows "0 \<le> n" "n \<le> 3" "0 \<le> r - n * k" "r - n * k \<le> k" "n < 3 \<Longrightarrow> r - n * k < k"
proof -
  define q where "q = r div k"
  define m where "m = r mod k"
  have rq: "r = k * q + m" by (simp add: q_def m_def)
  have m: "0 \<le> m" "m < k" using assms(2) by (simp_all add: m_def)
  have q: "0 \<le> q" using assms(1,2) by (simp add: q_def pos_imp_zdiv_nonneg_iff)
  have n: "n = min 3 q" by (simp add: n_def q_def)
  show "0 \<le> n" "n \<le> 3" using q by (simp_all add: n)
  show "0 \<le> r - n * k" "r - n * k \<le> k" "n < 3 \<Longrightarrow> r - n * k < k"
  proof -
    consider "q \<le> 2" | "q = 3" | "4 \<le> q" by linarith
    then have "0 \<le> r - n * k \<and> r - n * k \<le> k \<and> (n < 3 \<longrightarrow> r - n * k < k)"
    proof cases
      case 1
      then have "n = q" by (simp add: n)
      then have "r - n * k = m" by (simp add: rq)
      with m show ?thesis by simp
    next
      case 2
      then have "n = q" by (simp add: n)
      then have "r - n * k = m" by (simp add: rq)
      with m 2 \<open>n = q\<close> show ?thesis by simp
    next
      case 3
      then have n3: "n = 3" by (simp add: n)
      have "k * 4 \<le> k * q" using 3 assms(2) by (intro mult_left_mono) simp_all
      then have "r = 4 * k" using rq m assms(3) by linarith
      with n3 assms(2) show ?thesis by simp
    qed
    then show "0 \<le> r - n * k" "r - n * k \<le> k" "n < 3 \<Longrightarrow> r - n * k < k" by simp_all
  qed
qed

lemma cycleParts_bounds:
  assumes "cycleParts d = (a, b, c, e, doy)"
  shows "0 \<le> b \<and> b \<le> 3 \<and> 0 \<le> c \<and> c \<le> 24 \<and> 0 \<le> e \<and> e \<le> 3 \<and> 0 \<le> doy \<and> doy \<le> 365
         \<and> d + 134774 = 146097 * a + 36524 * b + 1461 * c + 365 * e + doy"
proof -
  define z where "z = d + 134774"
  define r where "r = z mod 146097"
  define r1 where "r1 = r - min 3 (r div 36524) * 36524"
  define r2 where "r2 = r1 mod 1461"
  have "(z div 146097, min 3 (r div 36524), r1 div 1461,
         min 3 (r2 div 365), r2 - min 3 (r2 div 365) * 365) = (a, b, c, e, doy)"
    using assms unfolding cycleParts_def Let_def z_def r_def r1_def r2_def .
  then have parts: "a = z div 146097" "b = min 3 (r div 36524)" "c = r1 div 1461"
      "e = min 3 (r2 div 365)" "doy = r2 - min 3 (r2 div 365) * 365"
    by (simp_all only: prod.inject) blast+
  have r: "0 \<le> r" "r \<le> 4 * 36524" by (simp_all add: r_def) 
  have za: "z = 146097 * a + r"
    by (simp add: parts r_def)
  have k1: "(0::int) < 36524" by simp
  have bb: "0 \<le> b" "b \<le> 3"
    unfolding parts using min3_div_bounds(1,2) [OF r(1) k1 r(2)] by simp_all
  have r1: "0 \<le> r1" "r1 \<le> 36524"
    unfolding r1_def using min3_div_bounds(3,4) [OF r(1) k1 r(2)] by simp_all
  have r2: "0 \<le> r2" "r2 \<le> 4 * 365" by (simp_all add: r2_def) 
  have r1c: "r1 = 1461 * c + r2" by (simp add: parts r2_def)
  have cb: "0 \<le> c" "c \<le> 24" using r1 r1c r2 by linarith+
  have k2: "(0::int) < 365" by simp
  have eb: "0 \<le> e" "e \<le> 3"
    unfolding parts using min3_div_bounds(1,2) [OF r2(1) k2 r2(2)] by simp_all
  have db: "0 \<le> doy" "doy \<le> 365"
    unfolding parts using min3_div_bounds(3,4) [OF r2(1) k2 r2(2)] by simp_all
  have "r = r1 + b * 36524" by (simp add: r1_def parts)
  moreover have "r2 = doy + e * 365" by (simp add: parts)
  ultimately have "d + 134774 = 146097 * a + 36524 * b + 1461 * c + 365 * e + doy"
    using za r1c unfolding z_def by linarith
  with bb cb eb db show ?thesis by simp
qed

text \<open>The year computed from the cycles is the year of the ECMAScript definition.\<close>

lemma div_succ:
  fixes n k :: int
  assumes "0 < k"
  shows "(n + 1) div k = n div k + (if (n + 1) mod k = 0 then 1 else 0)"
proof -
  define q where "q = n div k"
  define r where "r = n mod k"
  have n: "n = k * q + r" by (simp add: q_def r_def)
  have r: "0 \<le> r" "r < k" using assms by (simp_all add: r_def)
  show ?thesis
  proof (cases "r + 1 = k")
    case True
    then have e: "n + 1 = k * (q + 1) + 0" by (simp add: n algebra_simps)
    have "(n + 1) div k = q + 1" using assms by (intro int_div_pos_eq [OF e]) simp_all
    moreover have "(n + 1) mod k = 0" using assms by (intro int_mod_pos_eq [OF e]) simp_all
    ultimately show ?thesis by (simp add: q_def)
  next
    case False
    then have b: "0 \<le> r + 1" "r + 1 < k" using r by simp_all
    have e: "n + 1 = k * q + (r + 1)" by (simp add: n)
    have "(n + 1) div k = q" using b by (intro int_div_pos_eq [OF e])
    moreover have "(n + 1) mod k = r + 1" using b by (intro int_mod_pos_eq [OF e])
    ultimately show ?thesis using r by (simp add: q_def)
  qed
qed

lemma mod_shift:
  fixes y :: int
  shows "(y - 1968) mod 4 = y mod 4" "(y - 1900) mod 100 = y mod 100" "(y - 1600) mod 400 = y mod 400"
proof -
  have s: "(y - k * m) mod k = y mod k" for k m :: int
    by (metis add.commute diff_add_cancel mod_mult_self2)
  from s [of 4 492] show "(y - 1968) mod 4 = y mod 4" by simp
  from s [of 100 19] show "(y - 1900) mod 100 = y mod 100" by simp
  from s [of 400 4] show "(y - 1600) mod 400 = y mod 400" by simp
qed

lemma century_mod:
  fixes y :: int
  shows "y mod 100 = 0 \<Longrightarrow> y mod 4 = 0" "y mod 400 = 0 \<Longrightarrow> y mod 100 = 0"
proof -
  have a: "y mod 100 mod 4 = y mod 4" by (rule mod_mod_cancel) simp
  have b: "y mod 400 mod 100 = y mod 100" by (rule mod_mod_cancel) simp
  show "y mod 100 = 0 \<Longrightarrow> y mod 4 = 0" using a by simp
  show "y mod 400 = 0 \<Longrightarrow> y mod 100 = 0" using b by simp
qed

lemma DayFromYear_next: "DayFromYear (y + 1) = DayFromYear y + DaysInYear y"
proof -
  define A where "A = (y - 1969) div 4"
  define B where "B = (y - 1901) div 100"
  define C where "C = (y - 1601) div 400"
  have e: "y + 1 - 1969 = (y - 1969) + 1" "y + 1 - 1901 = (y - 1901) + 1"
      "y + 1 - 1601 = (y - 1601) + 1" "y + 1 - 1970 = (y - 1970) + 1"
    by simp_all
  have m: "y - 1969 + 1 = y - 1968" "y - 1901 + 1 = y - 1900" "y - 1601 + 1 = y - 1600"
    by simp_all
  have a: "(y + 1 - 1969) div 4 = A + (if y mod 4 = 0 then 1 else 0)"
    unfolding e A_def using div_succ [of 4 "y - 1969"] by (simp only: m mod_shift)
  have b: "(y + 1 - 1901) div 100 = B + (if y mod 100 = 0 then 1 else 0)"
    unfolding e B_def using div_succ [of 100 "y - 1901"] by (simp only: m mod_shift)
  have c: "(y + 1 - 1601) div 400 = C + (if y mod 400 = 0 then 1 else 0)"
    unfolding e C_def using div_succ [of 400 "y - 1601"] by (simp only: m mod_shift)
  have "DayFromYear (y + 1) = 365 * (y - 1970) + 365 + (A + (if y mod 4 = 0 then 1 else 0))
      - (B + (if y mod 100 = 0 then 1 else 0)) + (C + (if y mod 400 = 0 then 1 else 0))"
    unfolding DayFromYear_def a b c by simp
  moreover have "DayFromYear y = 365 * (y - 1970) + A - B + C"
    by (simp add: DayFromYear_def A_def B_def C_def)
  ultimately show ?thesis
    using century_mod [of y] by (simp add: DaysInYear_def)
qed


lemma cycleParts_strict:
  assumes "cycleParts d = (a, b, c, e, doy)"
  shows "(e < 3 \<longrightarrow> doy < 365) \<and> (b < 3 \<and> c = 24 \<longrightarrow> doy + 365 * e < 1460)"
proof -
  define z where "z = d + 134774"
  define r where "r = z mod 146097"
  define r1 where "r1 = r - min 3 (r div 36524) * 36524"
  define r2 where "r2 = r1 mod 1461"
  have "(z div 146097, min 3 (r div 36524), r1 div 1461,
         min 3 (r2 div 365), r2 - min 3 (r2 div 365) * 365) = (a, b, c, e, doy)"
    using assms unfolding cycleParts_def Let_def z_def r_def r1_def r2_def .
  then have parts: "a = z div 146097" "b = min 3 (r div 36524)" "c = r1 div 1461"
      "e = min 3 (r2 div 365)" "doy = r2 - min 3 (r2 div 365) * 365"
    by (simp_all only: prod.inject) blast+
  have r: "0 \<le> r" "r \<le> 4 * 36524" by (simp_all add: r_def)
  have k1: "(0::int) < 36524" by simp
  have r1b: "b < 3 \<Longrightarrow> r1 < 36524"
    unfolding r1_def parts using min3_div_bounds(5) [OF r(1) k1 r(2)] by simp
  have r2: "0 \<le> r2" "r2 \<le> 4 * 365" by (simp_all add: r2_def)
  have k2: "(0::int) < 365" by simp
  have e3: "e < 3 \<Longrightarrow> doy < 365"
    unfolding parts using min3_div_bounds(5) [OF r2(1) k2 r2(2)] by simp
  have r1c: "r1 = 1461 * c + r2" by (simp add: parts r2_def)
  have d2: "r2 = doy + 365 * e" by (simp add: parts)
  have "doy + 365 * e < 1460" if "b < 3" "c = 24"
    using r1b [OF that(1)] r1c d2 that(2) by linarith
  with e3 show ?thesis by blast
qed

lemma year_mods:
  fixes a b c e :: int
  assumes "0 \<le> b" "b \<le> 3" "0 \<le> c" "c \<le> 24" "0 \<le> e" "e \<le> 3"
  defines "y \<equiv> 1601 + 400 * a + 100 * b + 4 * c + e"
  shows "y mod 4 = 0 \<longleftrightarrow> e = 3"
    and "y mod 100 = 0 \<longleftrightarrow> c = 24 \<and> e = 3"
    and "y mod 400 = 0 \<longleftrightarrow> b = 3 \<and> c = 24 \<and> e = 3"
proof -
  show "y mod 4 = 0 \<longleftrightarrow> e = 3"
  proof (cases "e = 3")
    case True
    then have eq7: "y = 4 * (401 + 100 * a + 25 * b + c) + 0" by (simp add: y_def)
    have "y mod 4 = 0" by (rule int_mod_pos_eq [OF eq7]) simp_all
    with True show ?thesis by simp
  next
    case False
    have eq1: "y = 4 * (400 + 100 * a + 25 * b + c) + (1 + e)" by (simp add: y_def)
    have "y mod 4 = 1 + e"
      using assms False by (intro int_mod_pos_eq [OF eq1]) simp_all
    with assms False show ?thesis by simp
  qed
  show "y mod 100 = 0 \<longleftrightarrow> c = 24 \<and> e = 3"
  proof (cases "c = 24 \<and> e = 3")
    case True
    then have eq8: "y = 100 * (17 + 4 * a + b) + 0" by (simp add: y_def)
    have "y mod 100 = 0" by (rule int_mod_pos_eq [OF eq8]) simp_all
    with True show ?thesis by simp
  next
    case False
    with assms have lt: "4 * c + e < 99" by linarith
    have eq2: "y = 100 * (16 + 4 * a + b) + (1 + 4 * c + e)" by (simp add: y_def)
    have "y mod 100 = 1 + 4 * c + e"
      using assms lt by (intro int_mod_pos_eq [OF eq2]) simp_all
    with assms False show ?thesis by simp
  qed
  show "y mod 400 = 0 \<longleftrightarrow> b = 3 \<and> c = 24 \<and> e = 3"
  proof (cases "b = 3 \<and> c = 24 \<and> e = 3")
    case True
    then have eq9: "y = 400 * (5 + a) + 0" by (simp add: y_def)
    have "y mod 400 = 0" by (rule int_mod_pos_eq [OF eq9]) simp_all
    with True show ?thesis by simp
  next
    case False
    with assms have lt: "100 * b + 4 * c + e < 399" by linarith
    have eq3: "y = 400 * (4 + a) + (1 + 100 * b + 4 * c + e)" by (simp add: y_def)
    have "y mod 400 = 1 + 100 * b + 4 * c + e"
      using assms lt by (intro int_mod_pos_eq [OF eq3]) simp_all
    with assms False show ?thesis by simp
  qed
qed

lemma DayFromYear_parts:
  fixes a b c e :: int
  assumes "0 \<le> b" "b \<le> 3" "0 \<le> c" "c \<le> 24" "0 \<le> e" "e \<le> 3"
  shows "DayFromYear (1601 + 400 * a + 100 * b + 4 * c + e)
           = 146097 * a + 36524 * b + 1461 * c + 365 * e - 134774"
proof -
  define y where "y = 1601 + 400 * a + 100 * b + 4 * c + e"
  have eq4: "y - 1969 = 4 * (100 * a + 25 * b + c - 92) + e" by (simp add: y_def)
  have A: "(y - 1969) div 4 = 100 * a + 25 * b + c - 92"
    using assms by (intro int_div_pos_eq [OF eq4]) simp_all
  have eq5: "y - 1901 = 100 * (4 * a + b - 3) + (4 * c + e)" by (simp add: y_def)
  have B: "(y - 1901) div 100 = 4 * a + b - 3"
    using assms by (intro int_div_pos_eq [OF eq5]) simp_all
  have eq6: "y - 1601 = 400 * a + (100 * b + 4 * c + e)" by (simp add: y_def)
  have C: "(y - 1601) div 400 = a"
    using assms by (intro int_div_pos_eq [OF eq6]) simp_all
  have "DayFromYear y = 146097 * a + 36524 * b + 1461 * c + 365 * e - 134774"
    unfolding DayFromYear_def A B C by (simp add: y_def)
  then show ?thesis by (simp add: y_def)
qed

lemma YearFromTime_conforms:
  "DayFromYear (YearFromTime t) \<le> Day t \<and> Day t < DayFromYear (YearFromTime t + 1)
   \<and> DayWithinYear t = Day t - DayFromYear (YearFromTime t)"
proof -
  obtain a b c e doy where p: "cycleParts (Day t) = (a, b, c, e, doy)"
    by (metis prod_cases5)
  note B = cycleParts_bounds [OF p] and S = cycleParts_strict [OF p]
  have bounds: "0 \<le> b" "b \<le> 3" "0 \<le> c" "c \<le> 24" "0 \<le> e" "e \<le> 3" "0 \<le> doy" "doy \<le> 365"
    using B by simp_all
  have y: "YearFromTime t = 1601 + 400 * a + 100 * b + 4 * c + e"
    by (simp add: YearFromTime_def p)
  have dfy: "DayFromYear (YearFromTime t) = Day t - doy"
    unfolding y using DayFromYear_parts [OF bounds(1-6), of a] B by simp
  have m: "YearFromTime t mod 4 = 0 \<longleftrightarrow> e = 3"
      "YearFromTime t mod 100 = 0 \<longleftrightarrow> c = 24 \<and> e = 3"
      "YearFromTime t mod 400 = 0 \<longleftrightarrow> b = 3 \<and> c = 24 \<and> e = 3"
    unfolding y by (rule year_mods [OF bounds(1-6)])+
  have lt: "doy < DaysInYear (YearFromTime t)"
  proof (cases "e = 3")
    case False
    then have "doy < 365" using S bounds by simp
    moreover have "DaysInYear (YearFromTime t) = 365" using False m by (simp add: DaysInYear_def)
    ultimately show ?thesis by simp
  next
    case e: True
    show ?thesis
    proof (cases "c = 24")
      case False
      then have "DaysInYear (YearFromTime t) = 366" using e m by (simp add: DaysInYear_def)
      with bounds show ?thesis by simp
    next
      case c: True
      show ?thesis
      proof (cases "b = 3")
        case True
        then have "DaysInYear (YearFromTime t) = 366" using e c m by (simp add: DaysInYear_def)
        with bounds show ?thesis by simp
      next
        case False
        then have "b < 3" using bounds by simp
        then have "doy < 365" using S c e by simp
        moreover have "DaysInYear (YearFromTime t) = 365"
          using False e c m by (simp add: DaysInYear_def)
        ultimately show ?thesis by simp
      qed
    qed
  qed
  have "DayWithinYear t = doy" by (simp add: DayWithinYear_def p)
  with dfy lt bounds show ?thesis
    by (simp add: DayFromYear_next)
qed

text \<open>A civil date determines its day number.\<close>

lemma quot_rem_unique:
  fixes q r q' r' k :: int
  assumes "k * q + r = k * q' + r'" "0 \<le> r" "r < k" "0 \<le> r'" "r' < k"
  shows "q = q' \<and> r = r'"
proof -
  have "(k * q + r) div k = q" using assms(2,3) by (intro int_div_pos_eq [OF refl])
  moreover have "(k * q' + r') div k = q'" using assms(4,5) by (intro int_div_pos_eq [OF refl])
  ultimately have "q = q'" using assms(1) by simp
  with assms(1) show ?thesis by simp
qed

lemma year_parts_unique:
  fixes a b c e a' b' c' e' :: int
  assumes "400 * a + 100 * b + 4 * c + e = 400 * a' + 100 * b' + 4 * c' + e'"
    and "0 \<le> b" "b \<le> 3" "0 \<le> c" "c \<le> 24" "0 \<le> e" "e \<le> 3"
    and "0 \<le> b'" "b' \<le> 3" "0 \<le> c'" "c' \<le> 24" "0 \<le> e'" "e' \<le> 3"
  shows "a = a' \<and> b = b' \<and> c = c' \<and> e = e'"
proof -
  have "400 * a + (100 * b + 4 * c + e) = 400 * a' + (100 * b' + 4 * c' + e')"
    using assms(1) by simp
  then have 1: "a = a' \<and> 100 * b + 4 * c + e = 100 * b' + 4 * c' + e'"
    using assms(2-) by (intro quot_rem_unique [where k = 400]) linarith+
  then have "100 * b + (4 * c + e) = 100 * b' + (4 * c' + e')" by simp
  then have 2: "b = b' \<and> 4 * c + e = 4 * c' + e'"
    using assms(2-) by (intro quot_rem_unique [where k = 100]) linarith+
  then have "c = c' \<and> e = e'"
    using assms(2-) by (intro quot_rem_unique [where k = 4]) linarith+
  with 1 2 show ?thesis by simp
qed


lemma DayWithinYear_from_date:
  "DayWithinYear t = DateFromTime t + monthOffset (MonthFromTime t) (InLeapYear t)"
  by (simp add: DateFromTime_def monthOffset_def Let_def)

lemma Day_from_civil:
  assumes "YearFromTime t1 = YearFromTime t2" "MonthFromTime t1 = MonthFromTime t2"
    "DateFromTime t1 = DateFromTime t2"
  shows "Day t1 = Day t2"
proof -
  obtain a b c e doy where p1: "cycleParts (Day t1) = (a, b, c, e, doy)"
    by (metis prod_cases5)
  obtain a' b' c' e' doy' where p2: "cycleParts (Day t2) = (a', b', c', e', doy')"
    by (metis prod_cases5)
  note B1 = cycleParts_bounds [OF p1] and B2 = cycleParts_bounds [OF p2]
  have "400 * a + 100 * b + 4 * c + e = 400 * a' + 100 * b' + 4 * c' + e'"
    using assms(1) by (simp add: YearFromTime_def p1 p2)
  then have eq: "a = a' \<and> b = b' \<and> c = c' \<and> e = e'"
    using B1 B2 by (intro year_parts_unique) simp_all
  have "InLeapYear t1 = InLeapYear t2"
    using assms(1) by (simp add: InLeapYear_def)
  then have "DayWithinYear t1 = DayWithinYear t2"
    using assms(2,3) by (simp add: DayWithinYear_from_date)
  then have "doy = doy'" by (simp add: DayWithinYear_def p1 p2)
  with eq B1 B2 show ?thesis by simp
qed

lemma Day_determines:
  assumes "Day t1 = Day t2"
  shows "YearFromTime t1 = YearFromTime t2" "MonthFromTime t1 = MonthFromTime t2"
    "DateFromTime t1 = DateFromTime t2" "WeekDay t1 = WeekDay t2"
proof -
  show y: "YearFromTime t1 = YearFromTime t2" using assms by (simp add: YearFromTime_def)
  have d: "DayWithinYear t1 = DayWithinYear t2" using assms by (simp add: DayWithinYear_def)
  have l: "InLeapYear t1 = InLeapYear t2" using y by (simp add: InLeapYear_def)
  show m: "MonthFromTime t1 = MonthFromTime t2" by (simp add: MonthFromTime_def d l)
  show "DateFromTime t1 = DateFromTime t2" by (simp add: DateFromTime_def d l m)
  show "WeekDay t1 = WeekDay t2" using assms by (simp add: WeekDay_def)
qed

lemma DayWithinYear_bounds: "0 \<le> DayWithinYear t" "DayWithinYear t \<le> 365"
proof -
  obtain a b c e doy where p: "cycleParts (Day t) = (a, b, c, e, doy)"
    by (metis prod_cases5)
  from cycleParts_bounds [OF p] show "0 \<le> DayWithinYear t" "DayWithinYear t \<le> 365"
    by (simp_all add: DayWithinYear_def p)
qed

lemma InLeapYear_cases: "InLeapYear t = 0 \<or> InLeapYear t = 1"
  by (simp add: InLeapYear_def)

lemma MonthFromTime_bounds: "0 \<le> MonthFromTime t" "MonthFromTime t \<le> 11"
  by (simp_all add: MonthFromTime_def Let_def)

lemma DateFromTime_bounds: "1 \<le> DateFromTime t" "DateFromTime t \<le> 32"
proof -
  define d where "d = DayWithinYear t"
  define L where "L = InLeapYear t"
  have d: "0 \<le> d" "d \<le> 365" using DayWithinYear_bounds [of t] by (simp_all add: d_def)
  have L: "L = 0 \<or> L = 1" using InLeapYear_cases [of t] by (simp add: L_def)
  have "1 \<le> DateFromTime t \<and> DateFromTime t \<le> 32"
    unfolding DateFromTime_def MonthFromTime_def Let_def d_def [symmetric] L_def [symmetric]
    using d L by auto
  then show "1 \<le> DateFromTime t" "DateFromTime t \<le> 32" by simp_all
qed

lemma WeekDay_bounds: "0 \<le> WeekDay t" "WeekDay t \<le> 6"
  by (simp_all add: WeekDay_def)

lemma digit_val_digit: "n < 10 \<Longrightarrow> digit_val (digit n) = n"
proof -
  assume "n < 10"
  then have "n \<in> set [0..<10]" by simp
  moreover have "\<forall>n \<in> set [0..<10]. digit_val (digit n) = n"
    by code_simp
  ultimately show ?thesis by blast
qed

lemma decimal_val_snoc: "decimal_val (s @ [c]) = 10 * decimal_val s + digit_val c"
  by (simp add: decimal_val_def)

lemma decimal_val_digits: "decimal_val (digits n) = n"
proof (induction n rule: digits.induct)
  case (1 n)
  show ?case
  proof (cases "n < 10")
    case True
    then show ?thesis by (subst digits.simps) (simp add: decimal_val_def digit_val_digit)
  next
    case False
    then have "decimal_val (digits n) = 10 * decimal_val (digits (n div 10)) + digit_val (digit (n mod 10))"
      by (subst digits.simps) (simp add: decimal_val_snoc)
    also have "\<dots> = 10 * (n div 10) + n mod 10"
      using 1 [OF False] by (simp add: digit_val_digit)
    finally show ?thesis by simp
  qed
qed

lemma decimal_val_zeros: "decimal_val (replicate k (CHR ''0'') @ s) = decimal_val s"
proof -
  have "foldl (\<lambda>a c. 10 * a + digit_val c) 0 (replicate k (CHR ''0'')) = 0"
    by (induction k) (simp_all add: digit_val_def)
  then show ?thesis by (simp add: decimal_val_def)
qed

lemma decimal_val_padded: "decimal_val (ToZeroPaddedDecimalString n k) = n"
  by (simp add: ToZeroPaddedDecimalString_def decimal_val_zeros decimal_val_digits)

lemma padded_inject:
  "ToZeroPaddedDecimalString n k = ToZeroPaddedDecimalString n' k' \<Longrightarrow> n = n'"
  by (metis decimal_val_padded)

lemma digits_nonempty: "digits n \<noteq> []"
  by (subst digits.simps) simp

lemma digit_in: "n < 10 \<Longrightarrow> digit n \<in> set ''0123456789''"
  unfolding digit_def by (rule nth_mem) simp

lemma digits_set: "set (digits n) \<subseteq> set ''0123456789''"
proof (induction n rule: digits.induct)
  case (1 n)
  show ?case
  proof (cases "n < 10")
    case True
    then show ?thesis using digit_in [of n] by (subst digits.simps) simp
  next
    case False
    have "n mod 10 < 10" by simp
    then have "digit (n mod 10) \<in> set ''0123456789''" by (rule digit_in)
    with 1 [OF False] False show ?thesis by (subst digits.simps) simp
  qed
qed

lemma padded_nonempty: "ToZeroPaddedDecimalString n k \<noteq> []"
  by (simp add: ToZeroPaddedDecimalString_def digits_nonempty)

lemma padded_no_minus: "CHR ''-'' \<notin> set (ToZeroPaddedDecimalString n k)"
proof -
  have "set (ToZeroPaddedDecimalString n k) \<subseteq> set ''0123456789''"
    using digits_set [of n] by (auto simp: ToZeroPaddedDecimalString_def)
  then show ?thesis by auto
qed

lemma padded_length_ge: "k \<le> length (ToZeroPaddedDecimalString n k)"
  by (simp add: ToZeroPaddedDecimalString_def)

lemma padded2_length: "n < 100 \<Longrightarrow> length (ToZeroPaddedDecimalString n 2) = 2"
proof -
  assume n: "n < 100"
  have "length (digits n) \<le> 2"
  proof (cases "n < 10")
    case True
    then show ?thesis by (subst digits.simps) simp
  next
    case False
    with n have "n div 10 < 10" by simp
    then have "length (digits (n div 10)) = 1" by (subst digits.simps) simp
    with False show ?thesis by (subst digits.simps) simp
  qed
  then show ?thesis by (simp add: ToZeroPaddedDecimalString_def)
qed

lemma yearString_inject: "yearString y = yearString y' \<Longrightarrow> y = y'"
proof -
  assume eq: "yearString y = yearString y'"
  have neg: False if "0 \<le> a" "\<not> 0 \<le> b" "yearString a = yearString b" for a b
  proof -
    from that have "ToZeroPaddedDecimalString (nat \<bar>a\<bar>) 4 = CHR ''-'' # ToZeroPaddedDecimalString (nat \<bar>b\<bar>) 4"
      by (simp add: yearString_def)
    then have "CHR ''-'' \<in> set (ToZeroPaddedDecimalString (nat \<bar>a\<bar>) 4)" by simp
    then show False using padded_no_minus by blast
  qed
  show ?thesis
  proof (cases "0 \<le> y")
    case True
    show ?thesis
    proof (cases "0 \<le> y'")
      case y': True
      from eq True y' have "nat \<bar>y\<bar> = nat \<bar>y'\<bar>"
        by (auto simp: yearString_def dest: padded_inject)
      with True y' show ?thesis by simp
    next
      case False
      with True eq neg show ?thesis by blast
    qed
  next
    case False
    show ?thesis
    proof (cases "0 \<le> y'")
      case True
      with False eq neg [of y' y] show ?thesis by simp
    next
      case y': False
      from eq False y' have "nat \<bar>y\<bar> = nat \<bar>y'\<bar>"
        by (auto simp: yearString_def dest: padded_inject)
      with False y' show ?thesis by simp
    qed
  qed
qed

lemma weekdayName_length: "0 \<le> d \<Longrightarrow> d \<le> 6 \<Longrightarrow> length (weekdayName d) = 3"
proof -
  assume "0 \<le> d" "d \<le> 6"
  then have "nat d \<in> set [0..<7]" by simp
  moreover have "\<forall>i \<in> set [0..<7].
      length ([''Sun'', ''Mon'', ''Tue'', ''Wed'', ''Thu'', ''Fri'', ''Sat''] ! i) = 3"
    by code_simp
  ultimately show ?thesis unfolding weekdayName_def by blast
qed

lemma monthName_length: "0 \<le> m \<Longrightarrow> m \<le> 11 \<Longrightarrow> length (monthName m) = 3"
proof -
  assume "0 \<le> m" "m \<le> 11"
  then have "nat m \<in> set [0..<12]" by simp
  moreover have "\<forall>i \<in> set [0..<12].
      length ([''Jan'', ''Feb'', ''Mar'', ''Apr'', ''May'', ''Jun'',
               ''Jul'', ''Aug'', ''Sep'', ''Oct'', ''Nov'', ''Dec''] ! i) = 3"
    by code_simp
  ultimately show ?thesis unfolding monthName_def by blast
qed

lemma monthName_inject:
  assumes "0 \<le> m" "m \<le> 11" "0 \<le> m'" "m' \<le> 11" "monthName m = monthName m'"
  shows "m = m'"
proof -
  let ?xs = "[''Jan'', ''Feb'', ''Mar'', ''Apr'', ''May'', ''Jun'',
              ''Jul'', ''Aug'', ''Sep'', ''Oct'', ''Nov'', ''Dec'']"
  have d: "distinct ?xs" by simp
  have "nat m < length ?xs" "nat m' < length ?xs" using assms by simp_all
  with d assms(5) have "nat m = nat m'"
    unfolding monthName_def by (simp only: nth_eq_iff_index_eq)
  with assms show ?thesis by simp
qed

lemma DateString_parts:
  "DateString tv = weekdayName (WeekDay tv) @ '' '' @ monthName (MonthFromTime tv) @ '' '' @
     ToZeroPaddedDecimalString (nat (DateFromTime tv)) 2 @ '' '' @ yearString (YearFromTime tv)"
  by (simp add: DateString_def Let_def yearString_def)

lemma DateString_inject:
  assumes "DateString t1 = DateString t2"
  shows "Day t1 = Day t2"
proof -
  have lw: "length (weekdayName (WeekDay t1)) = length (weekdayName (WeekDay t2))"
    by (simp add: weekdayName_length WeekDay_bounds)
  have lm: "length (monthName (MonthFromTime t1)) = length (monthName (MonthFromTime t2))"
    by (simp add: monthName_length MonthFromTime_bounds)
  have d: "nat (DateFromTime t) < 100" for t
    using DateFromTime_bounds [of t] by simp
  have ld: "length (ToZeroPaddedDecimalString (nat (DateFromTime t1)) 2)
          = length (ToZeroPaddedDecimalString (nat (DateFromTime t2)) 2)"
    by (simp add: padded2_length d)
  from assms lw lm ld have
    m: "monthName (MonthFromTime t1) = monthName (MonthFromTime t2)" and
    dd: "ToZeroPaddedDecimalString (nat (DateFromTime t1)) 2
       = ToZeroPaddedDecimalString (nat (DateFromTime t2)) 2" and
    y: "yearString (YearFromTime t1) = yearString (YearFromTime t2)"
    unfolding DateString_parts by simp_all
  have "MonthFromTime t1 = MonthFromTime t2"
    using m by (intro monthName_inject) (simp_all add: MonthFromTime_bounds)
  moreover have "nat (DateFromTime t1) = nat (DateFromTime t2)"
    using dd by (rule padded_inject)
  then have "DateFromTime t1 = DateFromTime t2"
    using DateFromTime_bounds [of t1] DateFromTime_bounds [of t2] by simp
  moreover have "YearFromTime t1 = YearFromTime t2"
    using y by (rule yearString_inject)
  ultimately show ?thesis by (intro Day_from_civil)
qed

lemma DateString_Day: "Day t1 = Day t2 \<Longrightarrow> DateString t1 = DateString t2"
  using Day_determines [of t1 t2] by (simp add: DateString_parts)

lemma DateString_length: "15 \<le> length (DateString t)"
proof -
  have "4 \<le> length (yearString (YearFromTime t))"
    using padded_length_ge [of 4 "nat \<bar>YearFromTime t\<bar>"] by (simp add: yearString_def)
  moreover have "2 \<le> length (ToZeroPaddedDecimalString (nat (DateFromTime t)) 2)"
    by (rule padded_length_ge)
  ultimately show ?thesis
    by (simp add: DateString_parts weekdayName_length WeekDay_bounds monthName_length
        MonthFromTime_bounds)
qed

lemma DateString_not_invalid: "DateString t \<noteq> ''Invalid Date''"
proof
  assume "DateString t = ''Invalid Date''"
  then have "length (DateString t) = 12" by simp
  with DateString_length [of t] show False by simp
qed

lemma toDateString_Some_iff:
  "toDateString tza (Some t1) = toDateString tza (Some t2) \<longleftrightarrow>
     Day (LocalTime tza t1) = Day (LocalTime tza t2)"
  unfolding toDateString_def option.case
  using DateString_inject DateString_Day by blast

lemma toDateString_None_Some: "toDateString tza None \<noteq> toDateString tza (Some t)"
  unfolding toDateString_def option.case
  using DateString_not_invalid [of "LocalTime tza t"] by simp

text \<open>Evaluation of the calendar functions on two days of May 2024.\<close>

lemma cycleParts_staged:
  assumes "z = d + 134774" "n400 = z div 146097" "r400 = z mod 146097"
    "n100 = min 3 (r400 div 36524)" "r100 = r400 - n100 * 36524"
    "n4 = r100 div 1461" "r4 = r100 mod 1461"
    "n1 = min 3 (r4 div 365)" "doy = r4 - n1 * 365"
  shows "cycleParts d = (n400, n100, n4, n1, doy)"
  unfolding cycleParts_def Let_def assms ..

lemma padded_examples:
  "ToZeroPaddedDecimalString 2024 4 = ''2024''"
  "ToZeroPaddedDecimalString 2 2 = ''02''"
  "ToZeroPaddedDecimalString 1 2 = ''01''"
  "ToZeroPaddedDecimalString (Suc 0) 2 = ''01''"
  by (simp_all add: ToZeroPaddedDecimalString_def digits.simps digit_def)

lemma DateString_2_May_2024:
  assumes "Day t = 19845"
  shows "DateString t = ''Thu May 02 2024''"
proof -
  have c: "cycleParts (Day t) = (1, 0, 5, 3, 122)"
    unfolding assms
    by (rule cycleParts_staged [where z = 154619 and ?r400.0 = 8522 and ?r100.0 = 8522
          and ?r4.0 = 1217]) simp_all
  have y: "YearFromTime t = 2024" by (simp add: YearFromTime_def c)
  have d: "DayWithinYear t = 122" by (simp add: DayWithinYear_def c)
  have l: "InLeapYear t = 1" by (simp add: InLeapYear_def y DaysInYear_def)
  have m: "MonthFromTime t = 4" by (simp add: MonthFromTime_def d l)
  have dt: "DateFromTime t = 2" by (simp add: DateFromTime_def d l m)
  have w: "WeekDay t = 4" by (simp add: WeekDay_def assms)
  show ?thesis
    by (simp add: DateString_def y m dt w padded_examples weekdayName_def monthName_def)
qed

lemma DateString_1_May_2024:
  assumes "Day t = 19844"
  shows "DateString t = ''Wed May 01 2024''"
proof -
  have c: "cycleParts (Day t) = (1, 0, 5, 3, 121)"
    unfolding assms
    by (rule cycleParts_staged [where z = 154618 and ?r400.0 = 8521 and ?r100.0 = 8521
          and ?r4.0 = 1216]) simp_all
  have y: "YearFromTime t = 2024" by (simp add: YearFromTime_def c)
  have d: "DayWithinYear t = 121" by (simp add: DayWithinYear_def c)
  have l: "InLeapYear t = 1" by (simp add: InLeapYear_def y DaysInYear_def)
  have m: "MonthFromTime t = 4" by (simp add: MonthFromTime_def d l)
  have dt: "DateFromTime t = 1" by (simp add: DateFromTime_def d l m)
  have w: "WeekDay t = 3" by (simp add: WeekDay_def assms)
  show ?thesis
    by (simp add: DateString_def y m dt w padded_examples weekdayName_def monthName_def)
qed

subsection \<open>Student dashboard: what the handlers keep\<close>

lemma closeCamera_keeps:
  "capturedImage (closeCamera s) = capturedImage s"
  "isChecking (closeCamera s) = isChecking s"
  "isCameraOpen (closeCamera s) = isCameraOpen s"
  "isVerified (closeCamera s) = isVerified s"
  "isWithinCollegeRadius (closeCamera s) = isWithinCollegeRadius s"
  "posted (closeCamera s) = posted s"
  "captured (closeCamera s) = captured s"
  "toasts (closeCamera s) = toasts s"
  "pendingCamera (closeCamera s) = pendingCamera s"
  "inFlight (closeCamera s) = inFlight s"
  by (simp_all add: closeCamera_def split: option.splits)

lemma render_keeps:
  "capturedImage (render s) = capturedImage s"
  "isChecking (render s) = isChecking s"
  "isCameraOpen (render s) = isCameraOpen s"
  "isVerified (render s) = isVerified s"
  "isWithinCollegeRadius (render s) = isWithinCollegeRadius s"
  "posted (render s) = posted s"
  "captured (render s) = captured s"
  "toasts (render s) = toasts s"
  "pendingCamera (render s) = pendingCamera s"
  "inFlight (render s) = inFlight s"
  "liveStreams (render s) = liveStreams s"
  by (simp_all add: render_def split: option.splits)

lemma openCamera_begin_keeps:
  "capturedImage (openCamera_begin s) = capturedImage s"
  "isChecking (openCamera_begin s) = isChecking s"
  "isWithinCollegeRadius (openCamera_begin s) = isWithinCollegeRadius s"
  "posted (openCamera_begin s) = posted s"
  "captured (openCamera_begin s) = captured s"
  by (simp_all add: openCamera_begin_def Let_def closeCamera_keeps)

lemma openCamera_resume_keeps:
  "capturedImage (openCamera_resume outcome s) = capturedImage s"
  "isChecking (openCamera_resume outcome s) = isChecking s"
  "isWithinCollegeRadius (openCamera_resume outcome s) = isWithinCollegeRadius s"
  "posted (openCamera_resume outcome s) = posted s"
  "captured (openCamera_resume outcome s) = captured s"
  by (simp_all add: openCamera_resume_def Let_def closeCamera_keeps split: settled.splits option.splits)

lemma handleAttendance_resume_result:
  "capturedImage (handleAttendance_resume outcome s) = None"
  "isChecking (handleAttendance_resume outcome s) = False"
  "isCameraOpen (handleAttendance_resume outcome s) = False"
  "isWithinCollegeRadius (handleAttendance_resume outcome s) = isWithinCollegeRadius s"
  "posted (handleAttendance_resume outcome s) = posted s"
  "captured (handleAttendance_resume outcome s) = captured s"
  by (simp_all add: handleAttendance_resume_def Let_def closeCamera_keeps split: settled.splits)

lemma toDataURL_truthy: "truthy (Some (toDataURL canvas))"
  by (simp add: truthy_def toDataURL_def)

lemma subseq_map_butlast:
  "subseq ys (map f (butlast xs)) \<Longrightarrow> subseq ys (map f xs)"
proof (cases "xs = []")
  case True
  then show "subseq ys (map f (butlast xs)) \<Longrightarrow> subseq ys (map f xs)" by simp
next
  case False
  assume a: "subseq ys (map f (butlast xs))"
  have "map f xs = map f (butlast xs) @ [f (last xs)]"
    using False by (metis append_butlast_last_id list.simps(8,9) map_append)
  with a show "subseq ys (map f xs)" by (simp add: subseq_rev_drop_many)
qed

lemma consumable_subseq:
  "subseq ys (map f (consumable s)) \<Longrightarrow> subseq ys (map f (captured s))"
  by (auto simp: consumable_def dest: subseq_map_butlast split: if_splits)

lemma accounted_same:
  assumes "capturedImage s' = capturedImage s" "isChecking s' = isChecking s"
    "captured s' = captured s" "posted s' = posted s"
  shows "frames_accounted s' = frames_accounted s"
  unfolding frames_accounted_def consumable_def assms ..

lemma capturePhoto_accounted:
  assumes "frames_accounted s" "\<not> truthy (capturedImage s)"
  shows "frames_accounted (capturePhoto frame s)"
proof (cases "videoRef s")
  case None
  with assms(1) show ?thesis by (simp add: capturePhoto_def)
next
  case (Some video)
  define url where "url = toDataURL \<lparr>width = videoWidth video, height = videoHeight video, drawn = frame\<rparr>"
  have img: "capturedImage (capturePhoto frame s) = Some url"
    and cap: "captured (capturePhoto frame s) = captured s @ [url]"
    and chk: "isChecking (capturePhoto frame s) = isChecking s"
    and pst: "posted (capturePhoto frame s) = posted s"
    by (simp_all add: capturePhoto_def Some Let_def closeCamera_keeps url_def)
  have "subseq (map image_data (posted s)) (map split_comma_1 (captured s))"
    using assms(1) by (simp add: frames_accounted_def consumable_subseq)
  then have "subseq (map image_data (posted s)) (map split_comma_1 (consumable (capturePhoto frame s)))"
    by (simp add: consumable_def img cap chk subseq_rev_drop_many)
  then show ?thesis
    by (simp add: frames_accounted_def img cap pst)
qed

lemma submit_accounted:
  assumes "frames_accounted s" "truthy (capturedImage s)" "\<not> isChecking s"
    "handleAttendance_begin ident s = (s1, Some request)"
  shows "frames_accounted (s1\<lparr>posted := posted s1 @ [request], inFlight := Suc (inFlight s1)\<rparr>)"
proof -
  obtain img where img: "capturedImage s = Some img"
    using assms(2) by (auto simp: truthy_def split: option.splits)
  have s1: "s1 = s\<lparr>isChecking := True\<rparr>"
    and req: "request = \<lparr>student_id = ident, image_data = split_comma_1 img\<rparr>"
    using assms(4) img by (auto simp: handleAttendance_begin_def Let_def split: if_splits)
  have ne: "captured s \<noteq> []" and lst: "last (captured s) = img"
    using assms(1) img by (simp_all add: frames_accounted_def)
  have sub: "subseq (map image_data (posted s)) (map split_comma_1 (butlast (captured s)))"
    using assms(1,2,3) by (simp add: frames_accounted_def consumable_def)
  have "map split_comma_1 (captured s) = map split_comma_1 (butlast (captured s)) @ [split_comma_1 img]"
    using ne lst by (metis append_butlast_last_id list.simps(8,9) map_append)
  then have "subseq (map image_data (posted s) @ [split_comma_1 img]) (map split_comma_1 (captured s))"
    using sub by (simp add: subseq_append)
  then show ?thesis
    by (simp add: frames_accounted_def consumable_def s1 req img ne lst)
qed

lemma handle_accounted:
  assumes "frames_accounted s"
  shows "frames_accounted (handle ident e s)"
proof (cases e)
  case TakeAttendance
  with assms show ?thesis
    by (simp add: accounted_same [of "openCamera_begin s" s] openCamera_begin_keeps)
next
  case (CameraSettled outcome)
  show ?thesis
  proof (cases "pendingCamera s = 0")
    case True
    with assms CameraSettled show ?thesis by simp
  next
    case False
    have "frames_accounted (openCamera_resume outcome (s\<lparr>pendingCamera := pendingCamera s - 1\<rparr>))
        = frames_accounted s"
      by (rule accounted_same) (simp_all add: openCamera_resume_keeps)
    with assms CameraSettled False show ?thesis by simp
  qed
next
  case (VideoLoaded w h)
  have "frames_accounted (handle ident (VideoLoaded w h) s) = frames_accounted s"
    by (rule accounted_same) (simp_all split: option.splits)
  with assms VideoLoaded show ?thesis by simp
next
  case (Capture frame)
  with assms show ?thesis by (simp add: capturePhoto_accounted)
next
  case Retake
  show ?thesis
  proof (cases "isCameraOpen s \<and> truthy (capturedImage s)")
    case False
    with assms Retake show ?thesis by auto
  next
    case True
    have "subseq (map image_data (posted s)) (map split_comma_1 (captured s))"
      using assms by (simp add: frames_accounted_def consumable_subseq)
    then have "frames_accounted (retakePhoto s)"
      by (simp add: frames_accounted_def consumable_def retakePhoto_def openCamera_begin_keeps
          truthy_def)
    with True Retake show ?thesis by simp
  qed
next
  case SubmitForVerification
  show ?thesis
  proof (cases "isCameraOpen s \<and> truthy (capturedImage s) \<and> \<not> isChecking s")
    case False
    with assms SubmitForVerification show ?thesis by auto
  next
    case True
    obtain s1 r where b: "handleAttendance_begin ident s = (s1, r)"
      by (cases "handleAttendance_begin ident s")
    with True obtain request where r: "r = Some request"
      by (auto simp: handleAttendance_begin_def Let_def split: if_splits)
    from submit_accounted [OF assms _ _ b [unfolded r]] True
    show ?thesis using SubmitForVerification b r by simp
  qed
next
  case (VerificationSettled outcome)
  show ?thesis
  proof (cases "inFlight s = 0")
    case True
    with assms VerificationSettled show ?thesis by simp
  next
    case False
    have "subseq (map image_data (posted s)) (map split_comma_1 (captured s))"
      using assms by (simp add: frames_accounted_def consumable_subseq)
    then have "frames_accounted (handleAttendance_resume outcome (s\<lparr>inFlight := inFlight s - 1\<rparr>))"
      by (simp add: frames_accounted_def consumable_def handleAttendance_resume_result truthy_def)
    with False VerificationSettled show ?thesis by simp
  qed
next
  case (DialogOpenChange isOpen)
  have "frames_accounted (handle ident (DialogOpenChange isOpen) s) = frames_accounted s"
    by (rule accounted_same) simp_all
  with assms DialogOpenChange show ?thesis by simp
qed

lemma step_accounted: "frames_accounted s \<Longrightarrow> frames_accounted (step ident e s)"
  using handle_accounted [of s ident e]
  by (simp add: step_def accounted_same [of "render (handle ident e s)" "handle ident e s"] render_keeps)

lemma run_accounted: "frames_accounted s \<Longrightarrow> frames_accounted (run ident es s)"
  by (induction es arbitrary: s) (simp_all add: step_accounted)

lemma initial_accounted: "frames_accounted initial"
  by (simp add: frames_accounted_def initial_def consumable_def)

lemma accounted_count:
  assumes "frames_accounted s"
  shows "length (posted s) + unspent s \<le> captures s"
proof -
  have "subseq (map image_data (posted s)) (map split_comma_1 (consumable s))"
    using assms by (simp add: frames_accounted_def)
  then have "length (map image_data (posted s)) \<le> length (map split_comma_1 (consumable s))"
    by (rule list_emb_length)
  then have le: "length (posted s) \<le> length (consumable s)" by simp
  show ?thesis
  proof (cases "truthy (capturedImage s) \<and> \<not> isChecking s")
    case False
    with le show ?thesis by (auto simp: unspent_def captures_def consumable_def)
  next
    case True
    then obtain img where "capturedImage s = Some img"
      by (auto simp: truthy_def split: option.splits)
    with assms have "captured s \<noteq> []" by (simp add: frames_accounted_def)
    then have "length (butlast (captured s)) + 1 = length (captured s)" by simp
    with le True show ?thesis by (simp add: unspent_def captures_def consumable_def)
  qed
qed


lemma handle_without_frame:
  assumes "\<not> truthy (capturedImage s)" "\<not> is_Capture e"
  shows "\<not> truthy (capturedImage (handle ident e s)) \<and> posted (handle ident e s) = posted s"
proof (cases e)
  case TakeAttendance
  with assms show ?thesis by (simp add: openCamera_begin_keeps)
next
  case (CameraSettled outcome)
  with assms show ?thesis by (simp add: openCamera_resume_keeps)
next
  case (VideoLoaded w h)
  with assms show ?thesis by (simp split: option.splits)
next
  case (Capture frame)
  with assms show ?thesis by simp
next
  case Retake
  with assms show ?thesis by simp
next
  case SubmitForVerification
  with assms show ?thesis by simp
next
  case (VerificationSettled outcome)
  with assms show ?thesis by (simp add: handleAttendance_resume_result truthy_def)
next
  case (DialogOpenChange isOpen)
  with assms show ?thesis by simp
qed

lemma run_without_frame:
  "\<not> truthy (capturedImage s) \<Longrightarrow> list_all (\<lambda>e. \<not> is_Capture e) es \<Longrightarrow>
     posted (run ident es s) = posted s"
proof (induction es arbitrary: s)
  case Nil
  then show ?case by simp
next
  case (Cons e es)
  from Cons.prems have e: "\<not> is_Capture e" and es: "list_all (\<lambda>e. \<not> is_Capture e) es"
    by simp_all
  from handle_without_frame [OF Cons.prems(1) e, of ident]
  have "\<not> truthy (capturedImage (step ident e s))" "posted (step ident e s) = posted s"
    by (simp_all add: step_def render_keeps)
  with Cons.IH [OF _ es] show ?case by simp
qed

lemma submit_posts_held_frame:
  "posted (step ident SubmitForVerification s) =
     (if isCameraOpen s \<and> truthy (capturedImage s) \<and> \<not> isChecking s
      then posted s @ [\<lparr>student_id = ident,
                         image_data = (case capturedImage s of
                                         None \<Rightarrow> None
                                       | Some img \<Rightarrow> split_comma_1 img)\<rparr>]
      else posted s)"
  by (simp add: step_def render_keeps handleAttendance_begin_def Let_def)

lemma only_submit_posts:
  "e \<noteq> SubmitForVerification \<Longrightarrow> posted (step ident e s) = posted s"
  by (cases e)
    (simp_all add: step_def render_keeps openCamera_begin_keeps openCamera_resume_keeps
      handleAttendance_resume_result capturePhoto_def retakePhoto_def Let_def closeCamera_keeps
      split: option.splits)

lemma step_keeps_fence_flag:
  "isWithinCollegeRadius (step ident e s) = isWithinCollegeRadius s"
  by (cases e)
    (simp_all add: step_def render_keeps openCamera_begin_keeps openCamera_resume_keeps
      handleAttendance_resume_result capturePhoto_def retakePhoto_def Let_def closeCamera_keeps
      handleAttendance_begin_def split: option.splits)

lemma run_keeps_fence_flag:
  "isWithinCollegeRadius (run ident es s) = isWithinCollegeRadius s"
  by (induction es arbitrary: s) (simp_all add: step_keeps_fence_flag)

lemma handleAttendance_resume_toasts:
  "toasts (handleAttendance_resume outcome s) = toasts s @ [outcomeToast outcome]"
  by (simp add: handleAttendance_resume_def Let_def closeCamera_keeps outcomeToast_def
      split: settled.splits)

lemma handleAttendance_begin_request:
  assumes "handleAttendance_begin ident s = (s1, Some request)"
  shows "s1 = s\<lparr>isChecking := True\<rparr>" "truthy (capturedImage s)"
  using assms by (auto simp: handleAttendance_begin_def Let_def split: if_splits)

lemma closeCamera_streams:
  "liveStreams (closeCamera s) =
     (case attached s of None \<Rightarrow> liveStreams s | Some stream \<Rightarrow> removeAll stream (liveStreams s))"
  "attached (closeCamera s) = None"
  by (simp_all add: closeCamera_def attached_def split: option.splits)

lemma render_attached: "attached s = None \<Longrightarrow> attached (render s) = None"
  by (simp add: render_def attached_def split: option.splits)


lemma isVerified_after_answer:
  "isVerified (handleAttendance_resume (Fulfilled verified) s) = verified"
  by (simp add: handleAttendance_resume_def Let_def closeCamera_keeps)

lemma handleAttendance_resume_failed:
  "isVerified (handleAttendance_resume Rejected s) = isVerified s"
  by (simp add: handleAttendance_resume_def Let_def closeCamera_keeps)

lemma step_isVerified:
  "isVerified (step ident e s)
     = (case e of
          VerificationSettled (Fulfilled verified) \<Rightarrow>
            (if inFlight s = 0 then isVerified s else verified)
        | _ \<Rightarrow> isVerified s)"
proof (cases e)
  case TakeAttendance
  then show ?thesis
    by (simp add: step_def render_keeps openCamera_begin_def Let_def closeCamera_keeps)
next
  case (CameraSettled outcome)
  then show ?thesis
    by (simp add: step_def render_keeps openCamera_resume_def Let_def closeCamera_keeps
        split: settled.splits option.splits)
next
  case (VideoLoaded w h)
  then show ?thesis by (simp add: step_def render_keeps split: option.splits)
next
  case (Capture frame)
  then show ?thesis
    by (simp add: step_def render_keeps capturePhoto_def Let_def closeCamera_keeps
        split: option.splits)
next
  case Retake
  then show ?thesis
    by (simp add: step_def render_keeps retakePhoto_def openCamera_begin_def Let_def
        closeCamera_keeps)
next
  case SubmitForVerification
  then show ?thesis
    by (simp add: step_def render_keeps handleAttendance_begin_def Let_def)
next
  case (VerificationSettled outcome)
  then show ?thesis
    by (cases outcome)
      (simp_all add: step_def render_keeps isVerified_after_answer handleAttendance_resume_failed)
next
  case (DialogOpenChange isOpen)
  then show ?thesis by (simp add: step_def render_keeps)
qed
subsection \<open>Bulk update\<close>

lemma issue_map_sequential:
  "issue (map (\<lambda>ident. updateAttendanceStatus put ident st) ids) srv
     = sequentialUpdates put ids st srv"
  by (induction ids arbitrary: srv) (simp_all add: Let_def split: prod.splits)

lemma sequentialUpdates_server:
  "snd (sequentialUpdates put ids st srv) = foldl (\<lambda>s ident. snd (put s ident st)) srv ids"
proof (induction ids arbitrary: srv)
  case Nil
  show ?case by simp
next
  case (Cons ident ids)
  obtain r srv1 where p: "put srv ident st = (r, srv1)"
    by (cases "put srv ident st")
  obtain rs srv2 where q: "sequentialUpdates put ids st srv1 = (rs, srv2)"
    by (cases "sequentialUpdates put ids st srv1")
  from Cons.IH [of srv1] q have "srv2 = foldl (\<lambda>s ident. snd (put s ident st)) srv1 ids"
    by simp
  with p q show ?case
    by (simp add: updateAttendanceStatus_def)
qed

subsection \<open>Claim C1\<close>

text \<open>
  C1. For every studentId and date, N calls (N at least 1) of
  \<open>recordVerifiedCheckIn(studentId, date)\<close> with the same arguments, at any clock
  readings, leave exactly one persisted AttendanceRecord for the pair; every call
  returns the record of the first call (so the Nth record has the recordedAt of the
  first), the ledger after N calls is the ledger after the first call, and no call
  fails (the operation has no error result).
\<close>

theorem recordVerifiedCheckIn_idempotent:
  assumes "at_most_one L"
  shows "repeatCheckIn L sid d (t # ts) =
           (replicate (Suc (length ts)) (fst (recordVerifiedCheckIn L sid d t)),
            snd (recordVerifiedCheckIn L sid d t))
         \<and> length (filter (is_for sid d) (snd (repeatCheckIn L sid d (t # ts)))) = 1"
proof -
  obtain r L' where first: "recordVerifiedCheckIn L sid d t = (r, L')"
    by (cases "recordVerifiedCheckIn L sid d t")
  have "find (is_for sid d) L' = Some r"
    using first by (rule recordVerifiedCheckIn_finds)
  then have rest: "repeatCheckIn L' sid d ts = (replicate (length ts) r, L')"
    by (rule repeatCheckIn_existing)
  have cnt: "length (filter (is_for sid d) L') = 1"
    using assms first by (rule recordVerifiedCheckIn_count)
  show ?thesis
    using first rest cnt by simp
qed

theorem recordVerifiedCheckIn_idempotent_witness:
  "at_most_one []
   \<and> repeatCheckIn [] ''S1'' ''2024-05-01'' [100, 250, 900] =
       (replicate 3 \<lparr>studentId = ''S1'', date = ''2024-05-01'', status = Present, recordedAt = 100\<rparr>,
        [\<lparr>studentId = ''S1'', date = ''2024-05-01'', status = Present, recordedAt = 100\<rparr>])
   \<and> length (filter (is_for ''S1'' ''2024-05-01'')
        (snd (repeatCheckIn [] ''S1'' ''2024-05-01'' [100, 250, 900]))) = 1"
proof -
  have h: "at_most_one []" by (simp add: at_most_one_def)
  have e: "recordVerifiedCheckIn [] ''S1'' ''2024-05-01'' 100 =
             (\<lparr>studentId = ''S1'', date = ''2024-05-01'', status = Present, recordedAt = 100\<rparr>,
              [\<lparr>studentId = ''S1'', date = ''2024-05-01'', status = Present, recordedAt = 100\<rparr>])"
    by (simp add: recordVerifiedCheckIn_def Let_def)
  show ?thesis
    using h recordVerifiedCheckIn_idempotent [OF h, of "''S1''" "''2024-05-01''" 100 "[250, 900]"]
    by (simp add: e numeral_3_eq_3 is_for_def del: repeatCheckIn.simps)
qed

subsection \<open>Claim C2\<close>

text \<open>
  C2 states that on every exit path of the check-in flow (success, cancel including
  closing the dialog, error, teardown) all media tracks are stopped before the flow
  is idle again. The handlers of the success and error paths call \<open>closeCamera\<close>,
  but the dialog's \<open>onOpenChange\<close> is \<open>setIsCameraOpen\<close> alone: after "Take
  Attendance", a granted stream 7 and the closing of the dialog, the flow is idle
  and stream 7 is still live.
\<close>

theorem closing_dialog_leaves_camera_live:
  "idle (run 34 [TakeAttendance, CameraSettled (Fulfilled 7), DialogOpenChange False] initial)
   \<and> liveStreams (run 34 [TakeAttendance, CameraSettled (Fulfilled 7), DialogOpenChange False] initial) = [7]"
  by code_simp

subsection \<open>Claim C3\<close>

text \<open>
  C3. Each submission consumes one captured frame of its own. In every run of the
  dashboard from its first mount, the requests posted plus the frame not yet
  submitted never exceed the frames captured; the images of the posted requests
  are, in order, images of captured frames, each captured frame accounting for at
  most one request; and a frame that is held is the one captured last. A submission
  posts the frame held at that moment (the part of its data URL after the comma),
  and only when one is held and no submission is in progress; no other event posts
  anything. After any outcome of a submission (verified, rejected or failed: the
  settling of a request in flight) the captured frame is discarded, and from then
  on no sequence of events without a new capture posts another request.
\<close>

theorem submission_consumes_frame:
  assumes "0 < inFlight s" and "list_all (\<lambda>e. \<not> is_Capture e) es"
  shows "length (posted (run ident es0 initial)) + unspent (run ident es0 initial)
           \<le> captures (run ident es0 initial)
       \<and> subseq (map image_data (posted (run ident es0 initial)))
           (map split_comma_1 (captured (run ident es0 initial)))
       \<and> (case capturedImage (run ident es0 initial) of
            None \<Rightarrow> True
          | Some img \<Rightarrow> captured (run ident es0 initial) \<noteq> []
                        \<and> last (captured (run ident es0 initial)) = img)
       \<and> posted (step ident SubmitForVerification s0) =
           (if isCameraOpen s0 \<and> truthy (capturedImage s0) \<and> \<not> isChecking s0
            then posted s0 @ [\<lparr>student_id = ident,
                                image_data = (case capturedImage s0 of
                                                None \<Rightarrow> None
                                              | Some img \<Rightarrow> split_comma_1 img)\<rparr>]
            else posted s0)
       \<and> (e \<noteq> SubmitForVerification \<longrightarrow> posted (step ident e s0) = posted s0)
       \<and> capturedImage (step ident (VerificationSettled outcome) s) = None
       \<and> posted (run ident es (step ident (VerificationSettled outcome) s))
           = posted (step ident (VerificationSettled outcome) s)"
proof -
  have acc: "frames_accounted (run ident es0 initial)"
    using initial_accounted by (rule run_accounted)
  then have a: "length (posted (run ident es0 initial)) + unspent (run ident es0 initial)
           \<le> captures (run ident es0 initial)"
    by (rule accounted_count)
  have a2: "subseq (map image_data (posted (run ident es0 initial)))
           (map split_comma_1 (captured (run ident es0 initial)))"
    using acc by (simp add: frames_accounted_def consumable_subseq)
  have a3: "(case capturedImage (run ident es0 initial) of
            None \<Rightarrow> True
          | Some img \<Rightarrow> captured (run ident es0 initial) \<noteq> []
                        \<and> last (captured (run ident es0 initial)) = img)"
    using acc by (simp add: frames_accounted_def)
  have b: "capturedImage (step ident (VerificationSettled outcome) s) = None"
    using assms(1) by (simp add: step_def render_keeps handleAttendance_resume_result)
  then have "\<not> truthy (capturedImage (step ident (VerificationSettled outcome) s))"
    by (simp add: truthy_def)
  then have c: "posted (run ident es (step ident (VerificationSettled outcome) s))
           = posted (step ident (VerificationSettled outcome) s)"
    using assms(2) by (rule run_without_frame)
  show ?thesis
    using a a2 a3 b c submit_posts_held_frame [of ident s0] only_submit_posts [of e ident s0]
    by blast
qed


theorem submission_consumes_frame_witness:
  "0 < inFlight (run 34 two_submissions initial)
   \<and> list_all (\<lambda>e. \<not> is_Capture e) no_capture
   \<and> Retake \<noteq> SubmitForVerification
   \<and> length (posted (run 34 two_submissions initial)) + unspent (run 34 two_submissions initial)
       \<le> captures (run 34 two_submissions initial)
   \<and> subseq (map image_data (posted (run 34 two_submissions initial)))
        (map split_comma_1 (captured (run 34 two_submissions initial)))
   \<and> posted (run 34 two_submissions initial)
       = [\<lparr>student_id = 34, image_data = Some ''QUJD''\<rparr>,
          \<lparr>student_id = 34, image_data = Some ''WFla''\<rparr>]
   \<and> captured (run 34 two_submissions initial)
       = [''data:image/jpeg;base64,QUJD'', ''data:image/jpeg;base64,WFla'']
   \<and> posted (step 34 SubmitForVerification (run 34 one_capture initial))
       = [\<lparr>student_id = 34, image_data = Some ''QUJD''\<rparr>]
   \<and> posted (step 34 Retake (run 34 one_capture initial)) = posted (run 34 one_capture initial)
   \<and> capturedImage (step 34 (VerificationSettled (Fulfilled True))
        (run 34 two_submissions initial)) = None
   \<and> posted (run 34 no_capture
        (step 34 (VerificationSettled (Fulfilled True)) (run 34 two_submissions initial)))
       = posted (step 34 (VerificationSettled (Fulfilled True)) (run 34 two_submissions initial))"
proof -
  have h1: "0 < inFlight (run 34 two_submissions initial)" by code_simp
  have h2: "list_all (\<lambda>e. \<not> is_Capture e) no_capture" by code_simp
  have h3: "Retake \<noteq> SubmitForVerification" by simp
  note th = submission_consumes_frame [OF h1 h2, of 34 two_submissions "run 34 one_capture initial"
      Retake "Fulfilled True"]
  have p: "posted (run 34 two_submissions initial)
       = [\<lparr>student_id = 34, image_data = Some ''QUJD''\<rparr>,
          \<lparr>student_id = 34, image_data = Some ''WFla''\<rparr>]"
    by code_simp
  have c: "captured (run 34 two_submissions initial)
       = [''data:image/jpeg;base64,QUJD'', ''data:image/jpeg;base64,WFla'']"
    by code_simp
  have held: "isCameraOpen (run 34 one_capture initial) \<and> truthy (capturedImage (run 34 one_capture initial))
      \<and> \<not> isChecking (run 34 one_capture initial)"
    by code_simp
  have img: "(case capturedImage (run 34 one_capture initial) of
               None \<Rightarrow> None | Some img \<Rightarrow> split_comma_1 img) = Some ''QUJD''"
    by code_simp
  have p0: "posted (run 34 one_capture initial) = []" by code_simp
  have s: "posted (step 34 SubmitForVerification (run 34 one_capture initial))
       = [\<lparr>student_id = 34, image_data = Some ''QUJD''\<rparr>]"
    using th held by (simp only: if_True img p0 append_Nil simp_thms)
  from th h1 h2 h3 p c s show ?thesis by blast
qed


text \<open>
  A frame is discarded by an outcome, not by closing the dialog: a frame captured
  before the dialog was closed is still there when the dialog is opened again, and
  is then submitted once, as the one request it accounts for.
\<close>

lemma frame_kept_across_closed_dialog:
  "capturedImage (run 34 [TakeAttendance, CameraSettled (Fulfilled 7), VideoLoaded 640 480,
                          Capture ''QUJD'', DialogOpenChange False] initial)
     = Some ''data:image/jpeg;base64,QUJD''
   \<and> posted (run 34 [TakeAttendance, CameraSettled (Fulfilled 7), VideoLoaded 640 480,
                     Capture ''QUJD'', DialogOpenChange False, TakeAttendance,
                     SubmitForVerification, SubmitForVerification] initial)
     = [\<lparr>student_id = 34, image_data = Some ''QUJD''\<rparr>]"
  by code_simp

subsection \<open>Claim C4\<close>

text \<open>
  C4 states that \<open>evaluate\<close> returns \<open>withinFence = true\<close> exactly when the distance
  is at most the fence radius, and so for a device at the campus centre. The
  dashboard computes no such result: the comparison with \<open>allowedRadius\<close> is in the
  commented-out geolocation effect, nothing calls
  \<open>getDistanceFromLatLonInMeters\<close>, and \<open>isWithinCollegeRadius\<close> is never set. At
  the campus centre the distance function gives 0, which is within the radius of
  100 m, and the flag is false, at the first mount and after a whole check-in.
\<close>

theorem withinFence_never_set_counterexample:
  "getDistanceFromLatLonInMeters exact collegeLatitude collegeLongitude collegeLatitude collegeLongitude
     = Some 0
   \<and> 0 \<le> allowedRadius
   \<and> \<not> isWithinCollegeRadius initial
   \<and> \<not> isWithinCollegeRadius (run 34 verified_check_in initial)"
proof -
  have "getDistanceFromLatLonInMeters exact collegeLatitude collegeLongitude
          collegeLatitude collegeLongitude = Some 0"
    by (rule getDistance_same) (simp_all add: exact_simps atan2_def)
  moreover have "\<not> isWithinCollegeRadius initial"
    by (simp add: initial_def)
  ultimately show ?thesis
    by (simp add: run_keeps_fence_flag allowedRadius_def)
qed

text \<open>
  C4, amended. In exact arithmetic \<open>getDistanceFromLatLonInMeters\<close> returns, for
  all coordinates in degrees, the haversine great-circle distance with Earth
  radius 6,371,000 m: the distance between 0 and half the circumference whose
  central angle has the cosine
  \<open>sin lat1 sin lat2 + cos lat1 cos lat2 cos (lon2 - lon1)\<close>, symmetric in the two
  points. In rounded arithmetic the result is NaN exactly when the computed \<open>a\<close> is
  negative or \<open>1 - a\<close> rounds below 0, and for two equal coordinates, the campus
  centre among them, it is 0 in every arithmetic that is exact on 0 and 1 and has
  \<open>sin 0 = 0\<close> and \<open>atan2(0, 1) = 0\<close>. No \<open>withinFence\<close> is derived from the
  distance: \<open>isWithinCollegeRadius\<close> is false in every state the dashboard reaches.
\<close>

theorem getDistance_haversine:
  assumes "fl M 0 = 0" and "fl M 1 = 1" and "Math_sin M 0 = 0" and "Math_atan2 M 0 1 = 0"
  shows "getDistanceFromLatLonInMeters exact lat1 lon1 lat2 lon2
           = Some (haversine lat1 lon1 lat2 lon2)
       \<and> 0 \<le> haversine lat1 lon1 lat2 lon2
       \<and> haversine lat1 lon1 lat2 lon2 \<le> pi * 6371000
       \<and> cos (haversine lat1 lon1 lat2 lon2 / 6371000)
           = sin (lat1 * pi / 180) * sin (lat2 * pi / 180)
             + cos (lat1 * pi / 180) * cos (lat2 * pi / 180) * cos ((lon2 - lon1) * pi / 180)
       \<and> haversine lat1 lon1 lat2 lon2 = haversine lat2 lon2 lat1 lon1
       \<and> (getDistanceFromLatLonInMeters M lat1 lon1 lat2 lon2 = None)
           = (haversine_a M lat1 lon1 lat2 lon2 < 0
              \<or> fl M (1 - haversine_a M lat1 lon1 lat2 lon2) < 0)
       \<and> getDistanceFromLatLonInMeters M lat lon lat lon = Some 0
       \<and> getDistanceFromLatLonInMeters M collegeLatitude collegeLongitude
            collegeLatitude collegeLongitude = Some 0
       \<and> isWithinCollegeRadius (run ident es initial) = False"
proof -
  have same: "getDistanceFromLatLonInMeters M x y x y = Some 0" for x y
    using assms by (rule getDistance_same)
  have flag: "isWithinCollegeRadius (run ident es initial) = False"
    by (simp add: run_keeps_fence_flag initial_def)
  show ?thesis
    using getDistance_exact [of lat1 lon1 lat2 lon2] haversine_range [of lat1 lon1 lat2 lon2]
      haversine_cos [of lat1 lon1 lat2 lon2] haversine_sym [of lat1 lon1 lat2 lon2]
      getDistance_None_iff [of M lat1 lon1 lat2 lon2] same flag
    by blast
qed

text \<open>
  A quarter of a great circle: from (0, 0) to (0, 90) along the equator, and from
  the equator to the pole.
\<close>

theorem getDistance_haversine_witness:
  "fl exact 0 = 0 \<and> fl exact 1 = 1 \<and> Math_sin exact 0 = 0 \<and> Math_atan2 exact 0 1 = 0
   \<and> getDistanceFromLatLonInMeters exact 0 0 0 90 = Some (6371000 * (pi / 2))
   \<and> getDistanceFromLatLonInMeters exact 0 30 90 30 = Some (6371000 * (pi / 2))
   \<and> getDistanceFromLatLonInMeters exact 27 85 27 85 = Some 0
   \<and> isWithinCollegeRadius (run 34 verified_check_in initial) = False"
proof -
  have h: "fl exact 0 = 0" "fl exact 1 = 1" "Math_sin exact 0 = 0" "Math_atan2 exact 0 1 = 0"
    by (simp_all add: exact_simps atan2_def)
  have q1: "haversine 0 0 0 90 = 6371000 * (pi / 2)"
    using haversine_equator [of 90 0] by simp
  have q2: "haversine 0 30 90 30 = 6371000 * (pi / 2)"
    using haversine_meridian [of 90 0 30] by simp
  from getDistance_haversine [OF h, of 0 0 0 90]
  have a: "getDistanceFromLatLonInMeters exact 0 0 0 90 = Some (6371000 * (pi / 2))"
    by (simp only: q1)
  from getDistance_haversine [OF h, of 0 30 90 30]
  have b: "getDistanceFromLatLonInMeters exact 0 30 90 30 = Some (6371000 * (pi / 2))"
    by (simp only: q2)
  from getDistance_haversine [OF h, of _ _ _ _ 27 85]
  have c: "getDistanceFromLatLonInMeters exact 27 85 27 85 = Some 0"
    by blast
  from getDistance_haversine [OF h, of _ _ _ _ _ _ 34 verified_check_in]
  have d: "isWithinCollegeRadius (run 34 verified_check_in initial) = False"
    by blast
  from h a b c d show ?thesis by blast
qed

subsection \<open>Claim C5\<close>

text \<open>
  C5 states that the submission enforces a request timeout and reports a service
  error when the request exceeds it. The request is posted without a timeout: for a
  transport that never answers, \<open>handleAttendance\<close> with a captured image never
  returns.
\<close>

theorem handleAttendance_counterexample:
  "handleAttendance (\<lambda>request. Silent) 34
     (run 34 [TakeAttendance, CameraSettled (Fulfilled 7), VideoLoaded 640 480,
              Capture ''QUJD''] initial) = None"
  by code_simp

text \<open>
  C5, amended. The submission has no request timeout: with a captured image,
  \<open>handleAttendance\<close> returns exactly when the transport answers, however late. It
  then has posted the one request, is no longer checking, has discarded the image
  and has shown the toast of the outcome ("Attendance Error" for a rejection); while
  the transport stays silent it does not return.
\<close>

theorem handleAttendance_waits_for_transport:
  assumes "handleAttendance_begin ident s = (s1, Some request)"
  shows "(network request = Silent \<longrightarrow> handleAttendance network ident s = None)
       \<and> (network request = Answers ms outcome \<longrightarrow>
            (\<exists>s'. handleAttendance network ident s = Some s'
                \<and> \<not> isChecking s' \<and> capturedImage s' = None
                \<and> posted s' = posted s @ [request]
                \<and> toasts s' = toasts s @ [outcomeToast outcome]))"
proof -
  have s1: "s1 = s\<lparr>isChecking := True\<rparr>"
    using assms by (rule handleAttendance_begin_request)
  have silent: "handleAttendance network ident s = None" if "network request = Silent"
    using that assms by (simp add: handleAttendance_def axios_post_def axios_defaults_def)
  have answers: "handleAttendance network ident s =
      Some (handleAttendance_resume outcome (s1\<lparr>posted := posted s1 @ [request]\<rparr>))"
    if "network request = Answers ms outcome"
    using that assms by (simp add: handleAttendance_def axios_post_def axios_defaults_def)
  show ?thesis
    using silent answers
    by (auto simp: handleAttendance_resume_result handleAttendance_resume_toasts s1)
qed

theorem handleAttendance_waits_for_transport_witness:
  "handleAttendance_begin 34
     (run 34 [TakeAttendance, CameraSettled (Fulfilled 7), VideoLoaded 640 480, Capture ''QUJD''] initial)
     = ((run 34 [TakeAttendance, CameraSettled (Fulfilled 7), VideoLoaded 640 480, Capture ''QUJD''] initial)
          \<lparr>isChecking := True\<rparr>,
        Some \<lparr>student_id = 34, image_data = Some ''QUJD''\<rparr>)
   \<and> (\<exists>s'. handleAttendance (\<lambda>request. Answers 3600000 Rejected) 34
          (run 34 [TakeAttendance, CameraSettled (Fulfilled 7), VideoLoaded 640 480, Capture ''QUJD''] initial)
          = Some s'
        \<and> \<not> isChecking s' \<and> capturedImage s' = None
        \<and> posted s' = [\<lparr>student_id = 34, image_data = Some ''QUJD''\<rparr>]
        \<and> toasts s' = [AttendanceError])"
proof -
  let ?S = "run 34 [TakeAttendance, CameraSettled (Fulfilled 7), VideoLoaded 640 480, Capture ''QUJD''] initial"
  have h: "handleAttendance_begin 34 ?S
     = (?S\<lparr>isChecking := True\<rparr>, Some \<lparr>student_id = 34, image_data = Some ''QUJD''\<rparr>)"
    by code_simp
  have p: "posted ?S = []" and t: "toasts ?S = []" by code_simp+
  from handleAttendance_waits_for_transport [OF h, of "\<lambda>request. Answers 3600000 Rejected" 3600000 Rejected]
  show ?thesis
    using h by (simp add: p t outcomeToast_def del: run.simps)
qed

subsection \<open>Claim C6\<close>

text \<open>
  C6 states that \<open>captureFrame\<close> fails with NotReady while the preview has zero
  dimensions. \<open>capturePhoto\<close> has no such check: captured right after the stream
  was granted, before the video element reports dimensions, the frame is the
  degenerate \<open>data:,\<close> and no error is shown.
\<close>

theorem capturePhoto_zero_dimensions_counterexample:
  "capturedImage (run 34 [TakeAttendance, CameraSettled (Fulfilled 7), Capture ''QUJD''] initial)
     = Some ''data:,''
   \<and> toasts (run 34 [TakeAttendance, CameraSettled (Fulfilled 7), Capture ''QUJD''] initial) = []"
  by code_simp

text \<open>
  C6, amended. \<open>capturePhoto\<close> never fails: whenever the video element is mounted
  it stores the data URL of a canvas with the dimensions the element reports, which
  is the degenerate \<open>data:,\<close> when the width or the height is zero, shows no
  error, and closes the camera: the stream attached to the element is stopped (it
  is no longer among the live streams) and detached.
\<close>

theorem capturePhoto_no_readiness_check:
  assumes "videoRef s = Some video"
  shows "capturedImage (capturePhoto frame s)
           = Some (toDataURL \<lparr>width = videoWidth video, height = videoHeight video, drawn = frame\<rparr>)
       \<and> toasts (capturePhoto frame s) = toasts s
       \<and> attached (capturePhoto frame s) = None
       \<and> liveStreams (capturePhoto frame s)
           = (case srcObject video of
                None \<Rightarrow> liveStreams s
              | Some stream \<Rightarrow> removeAll stream (liveStreams s))
       \<and> toDataURL \<lparr>width = 0, height = h, drawn = frame\<rparr> = ''data:,''
       \<and> toDataURL \<lparr>width = w, height = 0, drawn = frame\<rparr> = ''data:,''"
  using assms
  by (auto simp: capturePhoto_def Let_def closeCamera_keeps toDataURL_def attached_def closeCamera_def
      split: option.splits)

theorem capturePhoto_no_readiness_check_witness:
  "videoRef (run 34 [TakeAttendance, CameraSettled (Fulfilled 7)] initial)
     = Some \<lparr>srcObject = Some 7, videoWidth = 0, videoHeight = 0\<rparr>
   \<and> capturedImage (capturePhoto ''QUJD'' (run 34 [TakeAttendance, CameraSettled (Fulfilled 7)] initial))
       = Some ''data:,''
   \<and> toasts (capturePhoto ''QUJD'' (run 34 [TakeAttendance, CameraSettled (Fulfilled 7)] initial)) = []
   \<and> attached (capturePhoto ''QUJD'' (run 34 [TakeAttendance, CameraSettled (Fulfilled 7)] initial)) = None
   \<and> liveStreams (run 34 [TakeAttendance, CameraSettled (Fulfilled 7)] initial) = [7]
   \<and> liveStreams (capturePhoto ''QUJD'' (run 34 [TakeAttendance, CameraSettled (Fulfilled 7)] initial)) = []"
proof -
  let ?S = "run 34 [TakeAttendance, CameraSettled (Fulfilled 7)] initial"
  have h: "videoRef ?S = Some \<lparr>srcObject = Some 7, videoWidth = 0, videoHeight = 0\<rparr>"
    by code_simp
  have t: "toasts ?S = []" by code_simp
  have l: "liveStreams ?S = [7]" by code_simp
  from capturePhoto_no_readiness_check [OF h, of "''QUJD''" 0 0]
  show ?thesis using h by (simp add: t l toDataURL_def del: run.simps)
qed

subsection \<open>Claim C7\<close>

text \<open>
  C7 states that a start while the flow is not idle is ignored and leaves the state
  of the current flow unchanged. \<open>openCamera\<close> is written to restart instead: with
  the camera open on stream 7, a second "Take Attendance" stops and detaches stream
  7 and requests a new one.
\<close>

theorem reentrant_start_counterexample:
  "attached (run 34 [TakeAttendance, CameraSettled (Fulfilled 7)] initial) = Some 7
   \<and> liveStreams (run 34 [TakeAttendance, CameraSettled (Fulfilled 7)] initial) = [7]
   \<and> pendingCamera (run 34 [TakeAttendance, CameraSettled (Fulfilled 7)] initial) = 0
   \<and> attached (step 34 TakeAttendance (run 34 [TakeAttendance, CameraSettled (Fulfilled 7)] initial)) = None
   \<and> liveStreams (step 34 TakeAttendance (run 34 [TakeAttendance, CameraSettled (Fulfilled 7)] initial)) = []
   \<and> pendingCamera (step 34 TakeAttendance (run 34 [TakeAttendance, CameraSettled (Fulfilled 7)] initial)) = 1"
  by code_simp

text \<open>
  C7, amended. A start is never ignored and never queued: in every state
  \<open>openCamera\<close> stops the tracks of the stream attached to the preview and
  detaches it, opens the dialog and requests a new stream at once, so that no
  earlier stream stays attached to the preview.
\<close>

theorem start_restarts_camera:
  "isCameraOpen (step ident TakeAttendance s)
   \<and> pendingCamera (step ident TakeAttendance s) = Suc (pendingCamera s)
   \<and> attached (step ident TakeAttendance s) = None
   \<and> liveStreams (step ident TakeAttendance s) =
       (case attached s of None \<Rightarrow> liveStreams s | Some stream \<Rightarrow> removeAll stream (liveStreams s))"
proof -
  have "attached (openCamera_begin s) = None"
    using closeCamera_streams(2) [of s] by (simp add: openCamera_begin_def Let_def attached_def)
  then have "attached (step ident TakeAttendance s) = None"
    by (simp add: step_def render_attached)
  then show ?thesis
    by (simp add: step_def render_keeps openCamera_begin_def Let_def closeCamera_keeps
        closeCamera_streams(1))
qed

subsection \<open>Claim C8\<close>

text \<open>
  C8 claims that a latitude outside [-90, 90] or a longitude outside [-180, 180]
  makes \<open>evaluate\<close> fail with a validation error. The code has no validation. The
  latitude 100 is outside the range, and in exact arithmetic the distance from
  (100, 0) to the pole (90, 0) is that of 10 degrees of a meridian, neither an
  error nor the 0 of a latitude clamped to 90; the longitude 445.30895279815599
  (the college's plus 360) is outside the range, and the distance from there to
  the college is 0.
\<close>

theorem getDistance_malformed_counterexample:
  "getDistanceFromLatLonInMeters exact 100 0 90 0 = Some (6371000 * (10 * pi / 180))
   \<and> getDistanceFromLatLonInMeters exact collegeLatitude (collegeLongitude + 360)
        collegeLatitude collegeLongitude = Some 0"
proof -
  have a: "haversine 100 0 90 0 = 6371000 * (10 * pi / 180)"
    using haversine_meridian [of 90 100 0] by simp
  have "haversine collegeLatitude collegeLongitude collegeLatitude collegeLongitude = 0"
    using haversine_meridian [of collegeLatitude collegeLatitude collegeLongitude] by simp
  then have b: "haversine collegeLatitude (collegeLongitude + 360) collegeLatitude collegeLongitude = 0"
    by (simp only: haversine_lon_360)
  show ?thesis
    by (simp only: getDistance_exact a b simp_thms)
qed

text \<open>
  C8, amended. \<open>getDistanceFromLatLonInMeters\<close> validates nothing and uses every
  coordinate as it is given, neither rejected nor clamped. In exact arithmetic it
  returns the haversine distance of the coordinates as given, whatever their
  ranges: along a meridian the distance of two latitudes at most 180 degrees
  apart is that difference in radians times the radius, also for latitudes beyond
  the poles; along the equator the same holds for two longitudes at most 180
  degrees apart; and a longitude and that longitude plus 360 degrees give the same
  distance. In rounded arithmetic the one failure is NaN, and it depends on the
  computed \<open>a\<close> only (\<open>a\<close> negative, or \<open>1 - a\<close> rounded below 0), not on the ranges
  of the coordinates.
\<close>

theorem getDistance_no_validation:
  "getDistanceFromLatLonInMeters exact lat1 lon1 lat2 lon2 = Some (haversine lat1 lon1 lat2 lon2)
   \<and> (\<bar>lat2 - lat1\<bar> \<le> 180 \<longrightarrow>
        getDistanceFromLatLonInMeters exact lat1 lon lat2 lon
          = Some (6371000 * (\<bar>lat2 - lat1\<bar> * pi / 180)))
   \<and> (\<bar>lon2 - lon1\<bar> \<le> 180 \<longrightarrow>
        getDistanceFromLatLonInMeters exact 0 lon1 0 lon2
          = Some (6371000 * (\<bar>lon2 - lon1\<bar> * pi / 180)))
   \<and> getDistanceFromLatLonInMeters exact lat1 (lon1 + 360) lat2 lon2
       = getDistanceFromLatLonInMeters exact lat1 lon1 lat2 lon2
   \<and> (getDistanceFromLatLonInMeters M lat1 lon1 lat2 lon2 = None)
       = (haversine_a M lat1 lon1 lat2 lon2 < 0
          \<or> fl M (1 - haversine_a M lat1 lon1 lat2 lon2) < 0)"
  using haversine_meridian [of lat2 lat1 lon] haversine_equator [of lon2 lon1]
    getDistance_None_iff [of M lat1 lon1 lat2 lon2]
  by (simp add: getDistance_exact haversine_lon_360)

theorem getDistance_no_validation_witness:
  "\<bar>90 - 100 :: real\<bar> \<le> 180 \<and> \<bar>200 - 190 :: real\<bar> \<le> 180
   \<and> getDistanceFromLatLonInMeters exact 100 0 90 0 = Some (6371000 * (10 * pi / 180))
   \<and> getDistanceFromLatLonInMeters exact 0 190 0 200 = Some (6371000 * (10 * pi / 180))"
  using getDistance_no_validation [where ?lat1.0 = 100 and ?lat2.0 = 90 and lon = 0
      and ?lon1.0 = 190 and ?lon2.0 = 200]
  by simp

subsection \<open>Claim C9\<close>

text \<open>
  C9. \<open>bulkUpdateAttendance(ids, status)\<close> is \<open>updateAttendanceStatus(id, status)\<close>
  issued once per id, in order, its result being \<open>Promise.all\<close> of the outcomes;
  the server ends in the state that all the single updates leave, whether or not
  one of them failed: nothing is rolled back and no update is held back. On the
  example backend, the bulk update of the ids 1, 99 and 2 fails with 404 for the
  unknown id 99, and the records 1 and 2 are updated all the same.
\<close>

theorem bulkUpdateAttendance_sequential:
  "bulkUpdateAttendance put ids st srv
     = (Promise_all (fst (sequentialUpdates put ids st srv)),
        snd (sequentialUpdates put ids st srv))
   \<and> snd (bulkUpdateAttendance put ids st srv)
       = foldl (\<lambda>s ident. snd (updateAttendanceStatus put ident st s)) srv ids
   \<and> bulkUpdateAttendance listBackend [1, 99, 2] Present
         [\<lparr>att_id = 1, att_student = ''A'', att_status = Absent, att_date = ''2024-05-01''\<rparr>,
          \<lparr>att_id = 2, att_student = ''B'', att_status = Late, att_date = ''2024-05-01''\<rparr>]
       = (Inl (HttpError 404),
          [\<lparr>att_id = 1, att_student = ''A'', att_status = Present, att_date = ''2024-05-01''\<rparr>,
           \<lparr>att_id = 2, att_student = ''B'', att_status = Present, att_date = ''2024-05-01''\<rparr>])"
proof -
  have a: "bulkUpdateAttendance put ids st srv
     = (Promise_all (fst (sequentialUpdates put ids st srv)),
        snd (sequentialUpdates put ids st srv))"
    by (simp add: bulkUpdateAttendance_def issue_map_sequential split: prod.splits)
  have b: "snd (bulkUpdateAttendance put ids st srv)
       = foldl (\<lambda>s ident. snd (updateAttendanceStatus put ident st s)) srv ids"
    by (simp add: a sequentialUpdates_server updateAttendanceStatus_def)
  have c: "bulkUpdateAttendance listBackend [1, 99, 2] Present
         [\<lparr>att_id = 1, att_student = ''A'', att_status = Absent, att_date = ''2024-05-01''\<rparr>,
          \<lparr>att_id = 2, att_student = ''B'', att_status = Late, att_date = ''2024-05-01''\<rparr>]
       = (Inl (HttpError 404),
          [\<lparr>att_id = 1, att_student = ''A'', att_status = Present, att_date = ''2024-05-01''\<rparr>,
           \<lparr>att_id = 2, att_student = ''B'', att_status = Present, att_date = ''2024-05-01''\<rparr>])"
    by code_simp
  from a b c show ?thesis by blast
qed

text \<open>
  The attendance page after such a failure: the server has the new statuses, the
  records shown locally are the old ones.
\<close>

lemma handleBulkUpdate_failure_example:
  "handleBulkUpdate listBackend
     [\<lparr>att_id = 1, att_student = ''A'', att_status = Absent, att_date = ''2024-05-01''\<rparr>,
      \<lparr>att_id = 99, att_student = ''Z'', att_status = Absent, att_date = ''2024-05-01''\<rparr>,
      \<lparr>att_id = 2, att_student = ''B'', att_status = Late, att_date = ''2024-05-01''\<rparr>]
     Present
     ([\<lparr>att_id = 1, att_student = ''A'', att_status = Absent, att_date = ''2024-05-01''\<rparr>,
       \<lparr>att_id = 99, att_student = ''Z'', att_status = Absent, att_date = ''2024-05-01''\<rparr>,
       \<lparr>att_id = 2, att_student = ''B'', att_status = Late, att_date = ''2024-05-01''\<rparr>],
      [\<lparr>att_id = 1, att_student = ''A'', att_status = Absent, att_date = ''2024-05-01''\<rparr>,
       \<lparr>att_id = 2, att_student = ''B'', att_status = Late, att_date = ''2024-05-01''\<rparr>])
   = ([\<lparr>att_id = 1, att_student = ''A'', att_status = Absent, att_date = ''2024-05-01''\<rparr>,
       \<lparr>att_id = 99, att_student = ''Z'', att_status = Absent, att_date = ''2024-05-01''\<rparr>,
       \<lparr>att_id = 2, att_student = ''B'', att_status = Late, att_date = ''2024-05-01''\<rparr>],
      [\<lparr>att_id = 1, att_student = ''A'', att_status = Present, att_date = ''2024-05-01''\<rparr>,
       \<lparr>att_id = 2, att_student = ''B'', att_status = Present, att_date = ''2024-05-01''\<rparr>])"
  by code_simp

subsection \<open>Claim C10\<close>

text \<open>
  C10 states that the indicator is derived solely from \<open>last_check_in\<close>. The effect
  that compares the dates is not the only writer of \<open>isVerified\<close>:
  \<open>handleAttendance\<close> sets it to the \<open>verified\<close> value of the server's answer. With
  a \<open>last_check_in\<close> that does not parse as a date the flag is false when the data
  has loaded, and true after a check-in that the server verified, while
  \<open>last_check_in\<close> is what it was.
\<close>

theorem isVerified_not_from_last_check_in_counterexample:
  "\<not> isVerified (studentDataLoaded (\<lambda>str. None) (\<lambda>t. 20700000) 1714586400000
        \<lparr>last_check_in = ''never''\<rparr> initial)
   \<and> isVerified (run 34 verified_check_in
        (studentDataLoaded (\<lambda>str. None) (\<lambda>t. 20700000) 1714586400000
          \<lparr>last_check_in = ''never''\<rparr> initial))
   \<and> studentData (run 34 verified_check_in
        (studentDataLoaded (\<lambda>str. None) (\<lambda>t. 20700000) 1714586400000
          \<lparr>last_check_in = ''never''\<rparr> initial))
       = Some \<lparr>last_check_in = ''never''\<rparr>"
  by (simp add: studentDataLoaded_def isVerifiedEffect_def toDateString_def) code_simp

text \<open>
  C10, amended. Whenever student data loads, \<open>isVerified\<close> is set to the equality of
  the \<open>toDateString()\<close> of \<open>last_check_in\<close>, parsed as a Date, and that of the
  current date; it depends on nothing else of the data. This holds exactly when
  \<open>last_check_in\<close> is a valid date on the same local calendar day as now: the
  comparison is by local calendar day. Until data loads again the flag is changed
  by one event only, an answer of the verification endpoint to a request in
  flight, which replaces it by the answer's \<open>verified\<close> value; so the indicator is
  not derived from \<open>last_check_in\<close> alone.
\<close>

theorem isVerified_same_local_day:
  "isVerified (studentDataLoaded Date_parse LocalTZA now data s)
     = (toDateString LocalTZA (Date_parse (last_check_in data)) = toDateString LocalTZA (Some now))
   \<and> isVerified (studentDataLoaded Date_parse LocalTZA now data s)
     = (case Date_parse (last_check_in data) of
          None \<Rightarrow> False
        | Some t \<Rightarrow> Day (LocalTime LocalTZA t) = Day (LocalTime LocalTZA now))
   \<and> isVerified (handleAttendance_resume (Fulfilled verified) st) = verified
   \<and> isVerified (step ident e st)
     = (case e of
          VerificationSettled (Fulfilled verified) \<Rightarrow>
            (if inFlight st = 0 then isVerified st else verified)
        | _ \<Rightarrow> isVerified st)"
proof -
  have a: "isVerified (studentDataLoaded Date_parse LocalTZA now data s)
     = (toDateString LocalTZA (Date_parse (last_check_in data)) = toDateString LocalTZA (Some now))"
    by (simp add: studentDataLoaded_def isVerifiedEffect_def)
  have "(toDateString LocalTZA (Date_parse (last_check_in data)) = toDateString LocalTZA (Some now))
     = (case Date_parse (last_check_in data) of
          None \<Rightarrow> False
        | Some t \<Rightarrow> Day (LocalTime LocalTZA t) = Day (LocalTime LocalTZA now))"
    using toDateString_None_Some [of LocalTZA now]
    by (simp add: toDateString_Some_iff split: option.splits)
  with a show ?thesis
    by (simp add: isVerified_after_answer step_isVerified)
qed

text \<open>
  In Nepal time (UTC+5:45), 18:30 UTC on 1 May 2024 is 00:15 on 2 May and 18:00 UTC
  is 23:45 on 1 May: a check-in half an hour before now, on the same UTC day, is on
  another local day and does not count; a check-in 23.5 hours before now, on the
  previous UTC day, is on the same local day and counts; an invalid date never
  counts. A check-in that counted no longer shows once the server has answered a
  later submission with \<open>verified = false\<close>.
\<close>

theorem isVerified_same_local_day_witness:
  "toDateString (\<lambda>t. 20700000) (Some 1714588200000) = ''Thu May 02 2024''
   \<and> toDateString (\<lambda>t. 20700000) (Some 1714586400000) = ''Wed May 01 2024''
   \<and> toDateString (\<lambda>t. 0) (Some 1714588200000) = ''Wed May 01 2024''
   \<and> \<not> isVerified (studentDataLoaded (\<lambda>str. Some 1714588200000) (\<lambda>t. 20700000) 1714586400000
          \<lparr>last_check_in = ''2024-05-01T18:30:00Z''\<rparr> initial)
   \<and> isVerified (studentDataLoaded (\<lambda>str. Some 1714501800000) (\<lambda>t. 20700000) 1714586400000
          \<lparr>last_check_in = ''2024-04-30T18:30:00Z''\<rparr> initial)
   \<and> \<not> isVerified (studentDataLoaded (\<lambda>str. None) (\<lambda>t. 20700000) 1714586400000
          \<lparr>last_check_in = ''never''\<rparr> initial)
   \<and> \<not> isVerified (step 34 (VerificationSettled (Fulfilled False))
          (run 34 two_submissions
            (studentDataLoaded (\<lambda>str. Some 1714501800000) (\<lambda>t. 20700000) 1714586400000
              \<lparr>last_check_in = ''2024-04-30T18:30:00Z''\<rparr> initial)))"
proof -
  have a: "toDateString (\<lambda>t. 20700000) (Some 1714588200000) = ''Thu May 02 2024''"
    unfolding toDateString_def option.case
    by (rule DateString_2_May_2024) (simp add: Day_def LocalTime_def msPerDay_def)
  have b: "toDateString (\<lambda>t. 20700000) (Some 1714586400000) = ''Wed May 01 2024''"
    unfolding toDateString_def option.case
    by (rule DateString_1_May_2024) (simp add: Day_def LocalTime_def msPerDay_def)
  have c: "toDateString (\<lambda>t. 0) (Some 1714588200000) = ''Wed May 01 2024''"
    unfolding toDateString_def option.case
    by (rule DateString_1_May_2024) (simp add: Day_def LocalTime_def msPerDay_def)
  have d: "\<not> isVerified (studentDataLoaded (\<lambda>str. Some 1714588200000) (\<lambda>t. 20700000) 1714586400000
          \<lparr>last_check_in = ''2024-05-01T18:30:00Z''\<rparr> initial)"
    using isVerified_same_local_day [of "\<lambda>str. Some 1714588200000" "\<lambda>t. 20700000" 1714586400000
        "\<lparr>last_check_in = ''2024-05-01T18:30:00Z''\<rparr>" initial, THEN conjunct2, THEN conjunct1]
    by (simp add: Day_def LocalTime_def msPerDay_def)
  have e: "isVerified (studentDataLoaded (\<lambda>str. Some 1714501800000) (\<lambda>t. 20700000) 1714586400000
          \<lparr>last_check_in = ''2024-04-30T18:30:00Z''\<rparr> initial)"
    using isVerified_same_local_day [of "\<lambda>str. Some 1714501800000" "\<lambda>t. 20700000" 1714586400000
        "\<lparr>last_check_in = ''2024-04-30T18:30:00Z''\<rparr>" initial, THEN conjunct2, THEN conjunct1]
    by (simp add: Day_def LocalTime_def msPerDay_def)
  have f: "\<not> isVerified (studentDataLoaded (\<lambda>str. None) (\<lambda>t. 20700000) 1714586400000
          \<lparr>last_check_in = ''never''\<rparr> initial)"
    using isVerified_same_local_day [of "\<lambda>str. None" "\<lambda>t. 20700000" 1714586400000
        "\<lparr>last_check_in = ''never''\<rparr>" initial, THEN conjunct2, THEN conjunct1]
    by simp
  have i: "inFlight (run 34 two_submissions
            (studentDataLoaded (\<lambda>str. Some 1714501800000) (\<lambda>t. 20700000) 1714586400000
              \<lparr>last_check_in = ''2024-04-30T18:30:00Z''\<rparr> initial)) = Suc 0"
    by (simp add: studentDataLoaded_def isVerifiedEffect_def) code_simp
  have g: "\<not> isVerified (step 34 (VerificationSettled (Fulfilled False))
          (run 34 two_submissions
            (studentDataLoaded (\<lambda>str. Some 1714501800000) (\<lambda>t. 20700000) 1714586400000
              \<lparr>last_check_in = ''2024-04-30T18:30:00Z''\<rparr> initial)))"
    using isVerified_same_local_day [where ident = 34 and e = "VerificationSettled (Fulfilled False)"
        and st = "run 34 two_submissions
            (studentDataLoaded (\<lambda>str. Some 1714501800000) (\<lambda>t. 20700000) 1714586400000
              \<lparr>last_check_in = ''2024-04-30T18:30:00Z''\<rparr> initial)",
        THEN conjunct2, THEN conjunct2, THEN conjunct2]
    by (simp only: i Event.case settled.case nat.simps if_False simp_thms)
  from a b c d e f g show ?thesis by blast
qed

end
